theory Spec2Isabelle
  imports Complex_Main "HOL-Library.Word"
begin

section \<open>kissStepper: a step/dir motor controller with linear ramps\<close>

text \<open>
  A shallow embedding of \<^verbatim>\<open>src/kissStepper.cpp\<close>. The C++ object is a record,
  each member function a function from the object before the call to the object after
  it. The integer members are machine words, so that the unsigned arithmetic wraps as
  on the target; signed comparisons read a word through \<open>sint\<close>. (Signed overflow,
  which C++ leaves undefined, wraps here as the two's complement targets do.)

  The \<^verbatim>\<open>float\<close> members \<open>m_stepInterval\<close> and \<open>m_constMult\<close> are modelled as
  real numbers and float arithmetic as exact arithmetic: the rounding error of the
  float operations is not modelled. The conversion of a float to an unsigned integer
  is the truncation that C++ prescribes (\<open>f2u\<close>).

  The value of \<^verbatim>\<open>micros()\<close> read by \<open>move\<close> is an argument of the model.
  The step pulse on the port of the STEP pin is counted in \<open>stepPulses\<close>, the level
  written to the ENABLE pin is \<open>pinEnableHigh\<close>.
\<close>

subsection \<open>Declarations of the header\<close>

text \<open>
  The file includes \<^verbatim>\<open>kissStepper.h\<close>, which is not among the sources. What
  the functions below need of it is modelled here from the use the source makes of it
  and from the specification.
\<close>

text \<open>
  Modelled from the spec: the enumeration \<^verbatim>\<open>kissState_t\<close> of the header. The
  source tests \<^verbatim>\<open>m_kissState > STATE_STARTING\<close> for "one of the moving phases"
  (specification 4.2), so Stopped and Starting come first.
\<close>

datatype kissState_t =
  STATE_STOPPED | STATE_STARTING | STATE_RUN | STATE_ACCEL | STATE_DECEL

fun stateOrd :: "kissState_t \<Rightarrow> nat" where
  "stateOrd STATE_STOPPED = 0"
| "stateOrd STATE_STARTING = 1"
| "stateOrd STATE_RUN = 2"
| "stateOrd STATE_ACCEL = 3"
| "stateOrd STATE_DECEL = 4"

text \<open>
  Modelled from the spec: the members of the two classes, declared in the header.
  Positions and limits are \<^verbatim>\<open>int32_t\<close> (the type of \<^verbatim>\<open>target\<close>), distances,
  times and whole intervals \<^verbatim>\<open>uint32_t\<close> (the type of the locals they are assigned
  from); speed and acceleration are taken as 16-bit unsigned, so that the square of the
  speed fits the 32-bit distance it is compared with.
\<close>

record kissStepper =
  m_forwardLimit :: "32 word"
  m_reverseLimit :: "32 word"
  m_maxSpeed :: "16 word"
  m_accel :: "16 word"
  PIN_ENABLE :: "8 word"
  pinEnableHigh :: bool
  m_enabled :: bool
  m_forwards :: bool
  m_kissState :: kissState_t
  m_pos :: "32 word"
  m_distMoved :: "32 word"
  m_distTotal :: "32 word"
  m_distAccel :: "32 word"
  m_distRun :: "32 word"
  m_stepIntervalWhole :: "32 word"
  m_stepInterval :: real
  m_constMult :: real
  m_maxSpeedStepInterval :: "32 word"
  m_lastStepTime :: "32 word"
  stepPulses :: nat

text \<open>Modelled from the spec: one second in microseconds, the unit of the intervals.\<close>

definition ONE_SECOND :: "32 word" where
  "ONE_SECOND = 1000000"

text \<open>
  Arduino's macro
  \<^verbatim>\<open>constrain(amt,low,high) ((amt)<(low)?(low):((amt)>(high)?(high):(amt)))\<close>
  on \<^verbatim>\<open>int32_t\<close>.
\<close>

definition constrain :: "32 word \<Rightarrow> 32 word \<Rightarrow> 32 word \<Rightarrow> 32 word" where
  "constrain amt low high =
     (if sint amt < sint low then low
      else if sint high < sint amt then high
      else amt)"

text \<open>
  The conversion of a float to \<^verbatim>\<open>uint32_t\<close>: the fractional part is discarded.
  (A value outside the range of the type is undefined in C++; here it wraps.)
\<close>

definition f2u :: "real \<Rightarrow> 32 word" where
  "f2u x = word_of_int (if 0 \<le> x then \<lfloor>x\<rfloor> else \<lceil>x\<rceil>)"

text \<open>
  Modelled from the spec: \<^verbatim>\<open>setDir\<close> of the header records the direction
  (specification 4.1, step 2); the level of the DIR pin is not modelled.
\<close>

definition setDir :: "bool \<Rightarrow> kissStepper \<Rightarrow> kissStepper" where
  "setDir forwards s = s\<lparr>m_forwards := forwards\<rparr>"

text \<open>
  Modelled from the spec: \<^verbatim>\<open>updatePos\<close> of the header "commits distanceMoved
  into currentPosition (applying direction sign)" (specification 4.5). The pulse count
  is cleared with it: \<open>prepareMove\<close> never resets \<open>m_distMoved\<close>, and \<open>move\<close> counts
  it up from the start of each move.
\<close>

definition updatePos :: "kissStepper \<Rightarrow> kissStepper" where
  "updatePos s =
     s\<lparr>m_pos := (if m_forwards s then m_pos s + m_distMoved s
                 else m_pos s - m_distMoved s),
       m_distMoved := 0\<rparr>"

text \<open>
  Modelled from the spec: \<^verbatim>\<open>getDistRemaining\<close> of the header, "the distance
  remaining in the current move" (specification 4.4).
\<close>

definition getDistRemaining :: "kissStepper \<Rightarrow> 32 word" where
  "getDistRemaining s = m_distTotal s - m_distMoved s"

text \<open>
  Modelled from the spec: \<^verbatim>\<open>calcMaxAccelDist\<close> of the header,
  \<open>maxSpeed\<^sup>2 / (2 \<sqdot> acceleration)\<close> in whole steps (specification 4.1, step 5).
\<close>

definition calcMaxAccelDist :: "kissStepper \<Rightarrow> 32 word" where
  "calcMaxAccelDist s =
     (ucast (m_maxSpeed s) * ucast (m_maxSpeed s)) div (2 * ucast (m_accel s))"

text \<open>
  Modelled from the spec: \<^verbatim>\<open>accelStep\<close> and \<^verbatim>\<open>decelStep\<close> of the header,
  \<open>T' = T \<sqdot> (1 - c \<sqdot> T\<^sup>2)\<close> and \<open>T' = T \<sqdot> (1 + c \<sqdot> T\<^sup>2)\<close> (specification 4.3).
\<close>

definition accelStep :: "real \<Rightarrow> real \<Rightarrow> real" where
  "accelStep stepInterval constMult =
     stepInterval * (1 - constMult * stepInterval * stepInterval)"

definition decelStep :: "real \<Rightarrow> real \<Rightarrow> real" where
  "decelStep stepInterval constMult =
     stepInterval * (1 + constMult * stepInterval * stepInterval)"

subsection \<open>kissStepperNoAccel\<close>

definition enable :: "kissStepper \<Rightarrow> kissStepper" where
  "enable s =
     s\<lparr>pinEnableHigh := (if PIN_ENABLE s \<noteq> 255 then False else pinEnableHigh s),
       m_enabled := True\<rparr>"

definition stopNoAccel :: "kissStepper \<Rightarrow> kissStepper" where
  "stopNoAccel s = (updatePos s)\<lparr>m_distTotal := 0, m_kissState := STATE_STOPPED\<rparr>"

text \<open>
  \<^verbatim>\<open>disable\<close> is a member of the base class and calls \<^verbatim>\<open>stop()\<close>. Which
  \<^verbatim>\<open>stop\<close> that is for a \<^verbatim>\<open>kissStepper\<close> object depends on whether the header
  declares it virtual, so the function called is an argument.
\<close>

definition disable :: "(kissStepper \<Rightarrow> kissStepper) \<Rightarrow> kissStepper \<Rightarrow> kissStepper" where
  "disable stopFn s =
     (let s1 = stopFn s in
      s1\<lparr>pinEnableHigh := (if PIN_ENABLE s1 \<noteq> 255 then True else pinEnableHigh s1),
         m_enabled := False\<rparr>)"

text \<open>
  The whole interval at full speed, as both \<^verbatim>\<open>prepareMove\<close> compute it:
  \<^verbatim>\<open>m_stepIntervalWhole = ONE_SECOND / m_maxSpeed;
  if ((ONE_SECOND % m_maxSpeed) >= (m_maxSpeed / 2)) m_stepIntervalWhole++;\<close>
\<close>

definition setFullSpeedInterval :: "kissStepper \<Rightarrow> kissStepper" where
  "setFullSpeedInterval s =
     (let s1 = s\<lparr>m_stepIntervalWhole := ONE_SECOND div ucast (m_maxSpeed s)\<rparr> in
      if ONE_SECOND mod ucast (m_maxSpeed s1) \<ge> ucast (m_maxSpeed s1) div 2
      then s1\<lparr>m_stepIntervalWhole := m_stepIntervalWhole s1 + 1\<rparr>
      else s1)"

definition prepareMoveNoAccel :: "32 word \<Rightarrow> kissStepper \<Rightarrow> bool \<times> kissStepper" where
  "prepareMoveNoAccel target0 s =
     (if m_kissState s = STATE_STOPPED then
        (let target = constrain target0 (m_reverseLimit s) (m_forwardLimit s) in
         if target \<noteq> m_pos s \<and> m_maxSpeed s > 0 then
           (let s1 = (if \<not> m_enabled s then enable s else s);
                s2 = setDir (sint (m_pos s1) < sint target) s1;
                s3 = s2\<lparr>m_kissState := STATE_STARTING\<rparr>;
                s4 = s3\<lparr>m_distTotal :=
                        (if sint (m_pos s3) < sint target then target - m_pos s3
                         else m_pos s3 - target)\<rparr>
            in (True, setFullSpeedInterval s4))
         else (False, s))
      else (False, s))"

subsection \<open>kissStepper\<close>

definition stop :: "kissStepper \<Rightarrow> kissStepper" where
  "stop s =
     (updatePos s)\<lparr>m_distAccel := 0, m_distRun := 0, m_distTotal := 0,
                   m_kissState := STATE_STOPPED\<rparr>"

text \<open>
  The ramp branch of \<^verbatim>\<open>prepareMove\<close> (the source's lines 248 to 276), for a
  distance \<open>distRemaining\<close>. The source rounds the initial interval to a 32-bit float
  before it is converted to the whole interval, the model does not: where the quotient
  lies within that rounding of a whole number (acceleration 467), the whole interval
  of the source is one more than the model's. The distances and the states do not
  depend on it.
\<close>

definition planRamp :: "32 word \<Rightarrow> kissStepper \<Rightarrow> kissStepper" where
  "planRamp distRemaining s =
     (let s1 = s\<lparr>m_distAccel := calcMaxAccelDist s\<rparr>;
          s2 = (if m_distAccel s1 \<ge> distRemaining div 2
                then s1\<lparr>m_distAccel := distRemaining div 2,
                        m_distRun := distRemaining div 2\<rparr>
                else s1\<lparr>m_distRun := distRemaining - m_distAccel s1\<rparr>);
          s3 = s2\<lparr>m_constMult :=
                  (real (unat (m_accel s2)) / real (unat ONE_SECOND)) / real (unat ONE_SECOND)\<rparr>;
          s4 = s3\<lparr>m_stepInterval :=
                  real (unat ONE_SECOND) / sqrt (2 * real (unat (m_accel s3)))\<rparr>;
          minSpeedStepInterval = f2u (m_stepInterval s4);
          s5 = s4\<lparr>m_stepIntervalWhole := minSpeedStepInterval\<rparr>;
          s6 = (if real (unat (m_stepIntervalWhole s5 - minSpeedStepInterval)) > 0.5
                then s5\<lparr>m_stepIntervalWhole := m_stepIntervalWhole s5 + 1\<rparr>
                else s5)
      in s6\<lparr>m_maxSpeedStepInterval := ONE_SECOND div ucast (m_maxSpeed s6)\<rparr>)"

definition prepareMove :: "32 word \<Rightarrow> kissStepper \<Rightarrow> bool \<times> kissStepper" where
  "prepareMove target0 s =
     (if m_kissState s = STATE_STOPPED then
        (let target = constrain target0 (m_reverseLimit s) (m_forwardLimit s) in
         if target \<noteq> m_pos s \<and> m_maxSpeed s > 0 then
           (let s1 = (if \<not> m_enabled s then enable s else s);
                s2 = setDir (sint (m_pos s1) < sint target) s1;
                s3 = s2\<lparr>m_kissState := STATE_STARTING\<rparr>;
                distRemaining =
                  (if sint (m_pos s3) < sint target then target - m_pos s3
                   else m_pos s3 - target);
                s4 = s3\<lparr>m_distAccel := 0, m_distRun := 0, m_distTotal := distRemaining\<rparr>
            in if m_accel s4 \<noteq> 0 then (True, planRamp distRemaining s4)
               else (True, setFullSpeedInterval (s4\<lparr>m_distRun := distRemaining\<rparr>)))
         else (False, s))
      else (False, s))"

text \<open>
  The statements \<^verbatim>\<open>m_stepIntervalWhole = m_stepInterval = accelStep(...)\<close> and
  \<^verbatim>\<open>... = decelStep(...)\<close> of \<^verbatim>\<open>move\<close>: the float member is assigned first, and
  its value is then converted to the whole interval. The source stores a 32-bit float,
  the model the value unrounded: where the step changes the interval by less than
  the float resolves, the source's interval stays as it is and the model's does not.
  Nothing below is stated about how the interval changes from pulse to pulse.
\<close>

definition setAccelInterval :: "kissStepper \<Rightarrow> kissStepper" where
  "setAccelInterval s =
     (let s1 = s\<lparr>m_stepInterval := accelStep (m_stepInterval s) (m_constMult s)\<rparr>
      in s1\<lparr>m_stepIntervalWhole := f2u (m_stepInterval s1)\<rparr>)"

definition setDecelInterval :: "kissStepper \<Rightarrow> kissStepper" where
  "setDecelInterval s =
     (let s1 = s\<lparr>m_stepInterval := decelStep (m_stepInterval s) (m_constMult s)\<rparr>
      in s1\<lparr>m_stepIntervalWhole := f2u (m_stepInterval s1)\<rparr>)"

text \<open>
  \<^verbatim>\<open>m_stepInterval = m_stepIntervalWhole = m_maxSpeedStepInterval\<close>: here the whole
  interval is assigned first.
\<close>

definition setRunInterval :: "kissStepper \<Rightarrow> kissStepper" where
  "setRunInterval s =
     (let s1 = s\<lparr>m_stepIntervalWhole := m_maxSpeedStepInterval s\<rparr>
      in s1\<lparr>m_stepInterval := real (unat (m_stepIntervalWhole s1))\<rparr>)"

text \<open>The phase logic of \<^verbatim>\<open>move\<close> after a pulse (the source's lines 338 to 377).\<close>

definition progress :: "kissStepper \<Rightarrow> kissStepper" where
  "progress s =
     (if m_kissState s = STATE_RUN then
        (if m_distMoved s = m_distRun s then
           (if m_distTotal s = m_distRun s then stop s
            else setDecelInterval (s\<lparr>m_kissState := STATE_DECEL\<rparr>))
         else s)
      else if m_kissState s = STATE_ACCEL then
        (if m_distMoved s = m_distAccel s then
           (if m_distRun s \<noteq> m_distAccel s
            then setRunInterval (s\<lparr>m_kissState := STATE_RUN\<rparr>)
            else setDecelInterval (s\<lparr>m_kissState := STATE_DECEL\<rparr>))
         else setAccelInterval s)
      else
        (if m_distMoved s = m_distTotal s then stop s
         else setDecelInterval s))"

text \<open>
  \<^verbatim>\<open>move\<close> with the time \<open>curTime\<close> that \<^verbatim>\<open>micros()\<close> returns. The value the
  source returns is \<open>m_kissState\<close> of the result.
\<close>

definition move :: "32 word \<Rightarrow> kissStepper \<Rightarrow> kissStepper" where
  "move curTime s =
     (if stateOrd (m_kissState s) > stateOrd STATE_STARTING then
        (if curTime - m_lastStepTime s \<ge> m_stepIntervalWhole s then
           (let s1 = s\<lparr>m_lastStepTime := m_lastStepTime s + m_stepIntervalWhole s\<rparr>;
                s2 = s1\<lparr>stepPulses := stepPulses s1 + 1\<rparr>;
                s3 = s2\<lparr>m_distMoved := m_distMoved s2 + 1\<rparr>
            in progress s3)
         else s)
      else if m_kissState s = STATE_STARTING then
        (let s1 = s\<lparr>m_lastStepTime := curTime\<rparr> in
         if m_distAccel s1 \<noteq> 0 then s1\<lparr>m_kissState := STATE_ACCEL\<rparr>
         else if m_distRun s1 \<noteq> 0 then s1\<lparr>m_kissState := STATE_RUN\<rparr>
         else if m_distTotal s1 \<noteq> 0 then s1\<lparr>m_kissState := STATE_DECEL\<rparr>
         else stop s1)
      else s)"

text \<open>
  \<^verbatim>\<open>decelerate\<close>. \<^verbatim>\<open>calcDecelDist\<close> is declared in the header and the
  specification gives only its style, so it is an argument: what is proved of
  \<open>decelerate\<close> holds whatever it computes.
\<close>

definition decelerate :: "(kissStepper \<Rightarrow> 32 word) \<Rightarrow> kissStepper \<Rightarrow> kissStepper" where
  "decelerate calcDecelDist s =
     (if stateOrd (m_kissState s) > stateOrd STATE_STARTING then
        (if m_accel s > 0 then
           (let distRemaining = getDistRemaining s;
                maxDecelDist = calcDecelDist s;
                decelDist = (if maxDecelDist > distRemaining then distRemaining
                             else maxDecelDist)
            in s\<lparr>m_distAccel := 0, m_distRun := 0,
                 m_distTotal := m_distMoved s + decelDist,
                 m_kissState := STATE_DECEL\<rparr>)
         else stop s)
      else s)"

subsection \<open>The controller in use\<close>

text \<open>
  The object after its constructor and \<^verbatim>\<open>begin()\<close>: stopped at position 0,
  facing forwards, the driver disabled. The limits, the speed, the acceleration and
  the ENABLE pin are the caller's.
\<close>

definition initial :: "32 word \<Rightarrow> 32 word \<Rightarrow> 16 word \<Rightarrow> 16 word \<Rightarrow> 8 word \<Rightarrow> kissStepper" where
  "initial forwardLimit reverseLimit maxSpeed accel pinEnable =
     \<lparr>m_forwardLimit = forwardLimit, m_reverseLimit = reverseLimit,
      m_maxSpeed = maxSpeed, m_accel = accel,
      PIN_ENABLE = pinEnable, pinEnableHigh = True, m_enabled = False,
      m_forwards = True, m_kissState = STATE_STOPPED,
      m_pos = 0, m_distMoved = 0, m_distTotal = 0, m_distAccel = 0, m_distRun = 0,
      m_stepIntervalWhole = 0, m_stepInterval = 0, m_constMult = 0,
      m_maxSpeedStepInterval = 0, m_lastStepTime = 0, stepPulses = 0\<rparr>"

text \<open>Repeated calls of \<^verbatim>\<open>move\<close>, one for each time of the list.\<close>

primrec moves :: "32 word list \<Rightarrow> kissStepper \<Rightarrow> kissStepper" where
  "moves [] s = s"
| "moves (t # ts) s = moves ts (move t s)"

text \<open>The public operations, and a caller's sequence of them.\<close>

datatype operation =
  PrepareMove "32 word" | Move "32 word" | Decelerate | Stop | Enable | Disable

fun isPrepareMove :: "operation \<Rightarrow> bool" where
  "isPrepareMove (PrepareMove target) = True"
| "isPrepareMove other = False"

fun exec :: "(kissStepper \<Rightarrow> 32 word) \<Rightarrow> operation \<Rightarrow> kissStepper \<Rightarrow> kissStepper" where
  "exec calcDecelDist (PrepareMove target) s = snd (prepareMove target s)"
| "exec calcDecelDist (Move curTime) s = move curTime s"
| "exec calcDecelDist Decelerate s = decelerate calcDecelDist s"
| "exec calcDecelDist Stop s = stop s"
| "exec calcDecelDist Enable s = enable s"
| "exec calcDecelDist Disable s = disable stop s"

primrec run :: "(kissStepper \<Rightarrow> 32 word) \<Rightarrow> operation list \<Rightarrow> kissStepper \<Rightarrow> kissStepper" where
  "run calcDecelDist [] s = s"
| "run calcDecelDist (x # xs) s = run calcDecelDist xs (exec calcDecelDist x s)"

text \<open>
  The position a move in progress ends at: the committed position and the whole
  planned distance, in the direction of travel.
\<close>

definition destination :: "kissStepper \<Rightarrow> 32 word" where
  "destination s =
     (if m_forwards s then m_pos s + m_distTotal s else m_pos s - m_distTotal s)"

text \<open>The invariant of the profile, as the specification's data model gives it.\<close>

definition profileInv :: "kissStepper \<Rightarrow> bool" where
  "profileInv s \<longleftrightarrow>
     0 \<le> m_distMoved s \<and> m_distMoved s \<le> m_distTotal s \<and>
     m_distAccel s \<le> m_distRun s \<and> m_distRun s \<le> m_distTotal s"

text \<open>
  The same with what each phase adds: no pulse is counted before the first phase, and
  in a moving phase the count is strictly below the boundary the phase runs to.
\<close>

definition phaseInv :: "kissStepper \<Rightarrow> bool" where
  "phaseInv s \<longleftrightarrow>
     m_distAccel s \<le> m_distRun s \<and> m_distRun s \<le> m_distTotal s \<and>
     (case m_kissState s of
        STATE_STOPPED \<Rightarrow> m_distMoved s = 0 \<and> m_distTotal s = 0
      | STATE_STARTING \<Rightarrow>
          m_distMoved s = 0 \<and> (m_distAccel s \<noteq> m_distRun s \<or> m_distRun s < m_distTotal s)
      | STATE_ACCEL \<Rightarrow>
          m_distMoved s < m_distAccel s \<and>
          (m_distAccel s \<noteq> m_distRun s \<or> m_distRun s < m_distTotal s)
      | STATE_RUN \<Rightarrow> m_distMoved s < m_distRun s
      | STATE_DECEL \<Rightarrow> m_distMoved s < m_distTotal s)"

text \<open>
  What every call of \<^verbatim>\<open>move\<close> keeps of a move in progress: it ends at \<open>tgt\<close>, and
  once stopped the position is \<open>tgt\<close>.
\<close>

definition arrives :: "32 word \<Rightarrow> kissStepper \<Rightarrow> bool" where
  "arrives tgt s \<longleftrightarrow>
     (if m_kissState s = STATE_STOPPED then m_pos s = tgt
      else destination s = tgt \<and>
           (if m_kissState s = STATE_STARTING then m_distMoved s = 0 else True))"

text \<open>The value of the local \<^verbatim>\<open>distRemaining\<close> of \<^verbatim>\<open>prepareMove\<close>.\<close>

definition moveDistance :: "32 word \<Rightarrow> kissStepper \<Rightarrow> 32 word" where
  "moveDistance target s =
     (let t = constrain target (m_reverseLimit s) (m_forwardLimit s) in
      if sint (m_pos s) < sint t then t - m_pos s else m_pos s - t)"

text \<open>
  Modelled from the spec: one reading of \<^verbatim>\<open>calcDecelDist\<close> of the header, "the
  distance-to-stop given current speed and configured deceleration" in the style
  \<open>1 / (2 \<sqdot> c \<sqdot> T\<^sup>2)\<close> (specification 4.4), in whole steps. It serves in one example,
  where it is 0; the properties of \<open>decelerate\<close> below hold whatever
  \<^verbatim>\<open>calcDecelDist\<close> computes.
\<close>

definition calcDecelDistSpec :: "kissStepper \<Rightarrow> 32 word" where
  "calcDecelDistSpec s = f2u (1 / (2 * m_constMult s * m_stepInterval s * m_stepInterval s))"

text \<open>
  A sequence of operations in which every \<open>decelerate\<close> that takes effect is given a
  deceleration distance other than 0.
\<close>

primrec decelNonzero ::
  "(kissStepper \<Rightarrow> 32 word) \<Rightarrow> operation list \<Rightarrow> kissStepper \<Rightarrow> bool" where
  "decelNonzero calcDecelDist [] s = True"
| "decelNonzero calcDecelDist (x # xs) s =
     ((if x = Decelerate \<and> stateOrd STATE_STARTING < stateOrd (m_kissState s) \<and> 0 < m_accel s
       then calcDecelDist s \<noteq> 0 else True) \<and>
      decelNonzero calcDecelDist xs (exec calcDecelDist x s))"

text \<open>The time at which the next pulse of a moving controller is due.\<close>

definition dueTime :: "kissStepper \<Rightarrow> 32 word" where
  "dueTime s = m_lastStepTime s + m_stepIntervalWhole s"

section \<open>Properties\<close>

subsection \<open>What the helpers leave alone\<close>

lemma planRamp_keeps:
  "m_pos (planRamp d s) = m_pos s"
  "m_forwards (planRamp d s) = m_forwards s"
  "m_distTotal (planRamp d s) = m_distTotal s"
  "m_kissState (planRamp d s) = m_kissState s"
  "m_distMoved (planRamp d s) = m_distMoved s"
  "m_accel (planRamp d s) = m_accel s"
  "m_maxSpeed (planRamp d s) = m_maxSpeed s"
  by (simp_all add: planRamp_def Let_def)

lemma setFullSpeedInterval_keeps:
  "m_pos (setFullSpeedInterval s) = m_pos s"
  "m_forwards (setFullSpeedInterval s) = m_forwards s"
  "m_distTotal (setFullSpeedInterval s) = m_distTotal s"
  "m_kissState (setFullSpeedInterval s) = m_kissState s"
  "m_distMoved (setFullSpeedInterval s) = m_distMoved s"
  "m_distAccel (setFullSpeedInterval s) = m_distAccel s"
  "m_distRun (setFullSpeedInterval s) = m_distRun s"
  "m_accel (setFullSpeedInterval s) = m_accel s"
  "m_maxSpeed (setFullSpeedInterval s) = m_maxSpeed s"
  "m_stepInterval (setFullSpeedInterval s) = m_stepInterval s"
  "m_constMult (setFullSpeedInterval s) = m_constMult s"
  "m_maxSpeedStepInterval (setFullSpeedInterval s) = m_maxSpeedStepInterval s"
  by (simp_all add: setFullSpeedInterval_def Let_def)

lemma setAccelInterval_keeps:
  "m_pos (setAccelInterval s) = m_pos s"
  "m_forwards (setAccelInterval s) = m_forwards s"
  "m_distTotal (setAccelInterval s) = m_distTotal s"
  "m_kissState (setAccelInterval s) = m_kissState s"
  "m_distMoved (setAccelInterval s) = m_distMoved s"
  "m_distAccel (setAccelInterval s) = m_distAccel s"
  "m_distRun (setAccelInterval s) = m_distRun s"
  "m_accel (setAccelInterval s) = m_accel s"
  "m_maxSpeed (setAccelInterval s) = m_maxSpeed s"
  "m_constMult (setAccelInterval s) = m_constMult s"
  "m_maxSpeedStepInterval (setAccelInterval s) = m_maxSpeedStepInterval s"
  by (simp_all add: setAccelInterval_def Let_def)

lemma setDecelInterval_keeps:
  "m_pos (setDecelInterval s) = m_pos s"
  "m_forwards (setDecelInterval s) = m_forwards s"
  "m_distTotal (setDecelInterval s) = m_distTotal s"
  "m_kissState (setDecelInterval s) = m_kissState s"
  "m_distMoved (setDecelInterval s) = m_distMoved s"
  "m_distAccel (setDecelInterval s) = m_distAccel s"
  "m_distRun (setDecelInterval s) = m_distRun s"
  "m_accel (setDecelInterval s) = m_accel s"
  "m_maxSpeed (setDecelInterval s) = m_maxSpeed s"
  "m_constMult (setDecelInterval s) = m_constMult s"
  "m_maxSpeedStepInterval (setDecelInterval s) = m_maxSpeedStepInterval s"
  by (simp_all add: setDecelInterval_def Let_def)

lemma setRunInterval_keeps:
  "m_pos (setRunInterval s) = m_pos s"
  "m_forwards (setRunInterval s) = m_forwards s"
  "m_distTotal (setRunInterval s) = m_distTotal s"
  "m_kissState (setRunInterval s) = m_kissState s"
  "m_distMoved (setRunInterval s) = m_distMoved s"
  "m_distAccel (setRunInterval s) = m_distAccel s"
  "m_distRun (setRunInterval s) = m_distRun s"
  "m_accel (setRunInterval s) = m_accel s"
  "m_maxSpeed (setRunInterval s) = m_maxSpeed s"
  "m_constMult (setRunInterval s) = m_constMult s"
  "m_maxSpeedStepInterval (setRunInterval s) = m_maxSpeedStepInterval s"
  by (simp_all add: setRunInterval_def Let_def)

lemmas setInterval_keeps =
  setAccelInterval_keeps setDecelInterval_keeps setRunInterval_keeps

lemma stop_fields:
  "m_kissState (stop s) = STATE_STOPPED"
  "m_pos (stop s) =
     (if m_forwards s then m_pos s + m_distMoved s else m_pos s - m_distMoved s)"
  "m_distMoved (stop s) = 0"
  "m_distTotal (stop s) = 0"
  "m_distAccel (stop s) = 0"
  "m_distRun (stop s) = 0"
  "m_accel (stop s) = m_accel s"
  "m_maxSpeed (stop s) = m_maxSpeed s"
  "stepPulses (stop s) = stepPulses s"
  by (simp_all add: stop_def updatePos_def)

text \<open>The state \<open>move\<close> hands to the phase logic when a pulse is due.\<close>

lemma move_due:
  assumes "stateOrd STATE_STARTING < stateOrd (m_kissState s)"
    and "m_stepIntervalWhole s \<le> curTime - m_lastStepTime s"
  shows "move curTime s =
           progress (s\<lparr>m_lastStepTime := m_lastStepTime s + m_stepIntervalWhole s,
                       stepPulses := stepPulses s + 1,
                       m_distMoved := m_distMoved s + 1\<rparr>)"
  using assms by (simp add: move_def Let_def)

lemma move_not_due:
  assumes "stateOrd STATE_STARTING < stateOrd (m_kissState s)"
    and "\<not> m_stepIntervalWhole s \<le> curTime - m_lastStepTime s"
  shows "move curTime s = s"
  using assms by (simp add: move_def)

lemma move_stopped: "m_kissState s = STATE_STOPPED \<Longrightarrow> move curTime s = s"
  by (simp add: move_def)

subsection \<open>The destination of a move in progress\<close>

lemma prepareMove_arrives:
  assumes "m_distMoved s = 0" and "prepareMove target s = (True, s')"
  shows "arrives (constrain target (m_reverseLimit s) (m_forwardLimit s)) s'"
  using assms
  by (auto simp: prepareMove_def Let_def arrives_def destination_def planRamp_keeps
      setFullSpeedInterval_keeps setDir_def enable_def split: if_splits)

lemma progress_arrives:
  assumes "m_kissState s \<noteq> STATE_STOPPED" and "m_kissState s \<noteq> STATE_STARTING"
    and "destination s = tgt"
  shows "arrives tgt (progress s)"
  using assms
  by (cases "m_kissState s")
     (auto simp: progress_def arrives_def destination_def setInterval_keeps stop_fields)

lemma move_arrives:
  assumes "arrives tgt s"
  shows "arrives tgt (move curTime s)"
proof (cases "stateOrd STATE_STARTING < stateOrd (m_kissState s)")
  case moving: True
  show ?thesis
  proof (cases "m_stepIntervalWhole s \<le> curTime - m_lastStepTime s")
    case True
    let ?p = "s\<lparr>m_lastStepTime := m_lastStepTime s + m_stepIntervalWhole s,
                 stepPulses := stepPulses s + 1,
                 m_distMoved := m_distMoved s + 1\<rparr>"
    from moving have "m_kissState ?p \<noteq> STATE_STOPPED" "m_kissState ?p \<noteq> STATE_STARTING"
      by auto
    moreover from moving assms have "destination ?p = tgt"
      by (auto simp: arrives_def destination_def split: if_splits)
    ultimately have "arrives tgt (progress ?p)"
      by (rule progress_arrives)
    with moving True show ?thesis
      by (simp add: move_due)
  next
    case False
    with moving assms show ?thesis
      by (simp add: move_not_due)
  qed
next
  case False
  then have "m_kissState s = STATE_STOPPED \<or> m_kissState s = STATE_STARTING"
    by (cases "m_kissState s") auto
  with assms show ?thesis
    by (auto simp: move_def Let_def arrives_def destination_def stop_fields split: if_splits)
qed

lemma moves_arrives: "arrives tgt s \<Longrightarrow> arrives tgt (moves ts s)"
  by (induction ts arbitrary: s) (simp_all add: move_arrives)

subsection \<open>Rejected commands\<close>

lemma prepareMove_no_move:
  assumes "m_kissState s \<noteq> STATE_STOPPED \<or>
           constrain target (m_reverseLimit s) (m_forwardLimit s) = m_pos s \<or>
           m_maxSpeed s = 0"
  shows "prepareMove target s = (False, s)"
  using assms by (auto simp: prepareMove_def Let_def)

lemma prepareMoveNoAccel_no_move:
  assumes "m_kissState s \<noteq> STATE_STOPPED \<or>
           constrain target (m_reverseLimit s) (m_forwardLimit s) = m_pos s \<or>
           m_maxSpeed s = 0"
  shows "prepareMoveNoAccel target s = (False, s)"
  using assms by (auto simp: prepareMoveNoAccel_def Let_def)

text \<open>
  Claim C2. In every state that is not Stopped, and in a Stopped state when the clamped
  target is the current position or \<open>m_maxSpeed\<close> is 0, \<open>prepareMove\<close> returns
  false and the object is unchanged in every member; so does the \<open>prepareMove\<close> of
  the controller without acceleration.
\<close>

theorem prepareMove_rejected_unchanged:
  assumes "m_kissState s \<noteq> STATE_STOPPED \<or>
           constrain target (m_reverseLimit s) (m_forwardLimit s) = m_pos s \<or>
           m_maxSpeed s = 0"
  shows "prepareMove target s = (False, s) \<and> prepareMoveNoAccel target s = (False, s)"
  using assms by (auto simp: prepareMove_no_move prepareMoveNoAccel_no_move)

theorem prepareMove_rejected_unchanged_witness:
  "prepareMove 5 ((initial 1000 (- 1000) 100 0 255)\<lparr>m_kissState := STATE_RUN\<rparr>)
     = (False, (initial 1000 (- 1000) 100 0 255)\<lparr>m_kissState := STATE_RUN\<rparr>) \<and>
   prepareMove 0 (initial 1000 (- 1000) 100 0 255)
     = (False, initial 1000 (- 1000) 100 0 255) \<and>
   prepareMoveNoAccel 7 (initial 1000 (- 1000) 0 0 255)
     = (False, initial 1000 (- 1000) 0 0 255)"
  using
    prepareMove_rejected_unchanged
      [of "(initial 1000 (- 1000) 100 0 255)\<lparr>m_kissState := STATE_RUN\<rparr>" 5]
    prepareMove_rejected_unchanged [of "initial 1000 (- 1000) 100 0 255" 0]
    prepareMove_rejected_unchanged [of "initial 1000 (- 1000) 0 0 255" 7]
  by (simp add: initial_def constrain_def)

text \<open>
  Claim C10. With the limits in order, a target strictly beyond the forward limit
  while the position is that limit, or strictly beyond the reverse limit while the
  position is that limit, is clamped onto the position: \<open>prepareMove\<close> returns false
  and changes nothing, so the driver is not enabled, although the target given differs
  from the position.
\<close>

theorem prepareMove_at_limit_rejected:
  assumes "sint (m_reverseLimit s) \<le> sint (m_forwardLimit s)"
    and "(m_pos s = m_forwardLimit s \<and> sint (m_forwardLimit s) < sint target) \<or>
         (m_pos s = m_reverseLimit s \<and> sint target < sint (m_reverseLimit s))"
  shows "target \<noteq> m_pos s \<and>
         prepareMove target s = (False, s) \<and>
         prepareMoveNoAccel target s = (False, s) \<and>
         m_enabled (snd (prepareMove target s)) = m_enabled s \<and>
         pinEnableHigh (snd (prepareMove target s)) = pinEnableHigh s"
proof -
  from assms(2) have ne: "target \<noteq> m_pos s"
    by auto
  from assms have "constrain target (m_reverseLimit s) (m_forwardLimit s) = m_pos s"
    unfolding constrain_def by (elim disjE conjE) simp_all
  then show ?thesis
    using ne by (simp add: prepareMove_no_move prepareMoveNoAccel_no_move)
qed

theorem prepareMove_at_limit_rejected_witness:
  "prepareMove 500 ((initial 100 (- 100) 1000 0 4)\<lparr>m_pos := 100\<rparr>)
     = (False, (initial 100 (- 100) 1000 0 4)\<lparr>m_pos := 100\<rparr>) \<and>
   prepareMove (- 500) ((initial 100 (- 100) 1000 0 4)\<lparr>m_pos := - 100\<rparr>)
     = (False, (initial 100 (- 100) 1000 0 4)\<lparr>m_pos := - 100\<rparr>) \<and>
   \<not> m_enabled (snd (prepareMove 500 ((initial 100 (- 100) 1000 0 4)\<lparr>m_pos := 100\<rparr>)))"
  using
    prepareMove_at_limit_rejected [of "(initial 100 (- 100) 1000 0 4)\<lparr>m_pos := 100\<rparr>" 500]
    prepareMove_at_limit_rejected
      [of "(initial 100 (- 100) 1000 0 4)\<lparr>m_pos := - 100\<rparr>" "- 500"]
  by (simp add: initial_def)

subsection \<open>The starting call\<close>

text \<open>
  Claim C6. A call of \<open>move\<close> in state Starting records the current time as the time
  of the last pulse and emits no pulse; the state becomes Accelerating if
  \<open>m_distAccel\<close> is not 0, else Cruising if \<open>m_distRun\<close> is not 0, else Decelerating
  if \<open>m_distTotal\<close> is not 0; if all three are 0 the call is a \<open>stop\<close>, which leaves
  the controller Stopped. Nothing else changes.
\<close>

theorem move_from_starting:
  assumes "m_kissState s = STATE_STARTING"
  shows "m_lastStepTime (move curTime s) = curTime \<and>
         stepPulses (move curTime s) = stepPulses s \<and>
         m_kissState (move curTime s) =
           (if m_distAccel s \<noteq> 0 then STATE_ACCEL
            else if m_distRun s \<noteq> 0 then STATE_RUN
            else if m_distTotal s \<noteq> 0 then STATE_DECEL
            else STATE_STOPPED) \<and>
         move curTime s =
           (if m_distAccel s = 0 \<and> m_distRun s = 0 \<and> m_distTotal s = 0
            then stop (s\<lparr>m_lastStepTime := curTime\<rparr>)
            else s\<lparr>m_lastStepTime := curTime,
                   m_kissState := m_kissState (move curTime s)\<rparr>)"
  using assms by (auto simp: move_def Let_def stop_def updatePos_def)

theorem move_from_starting_witness:
  "m_kissState (snd (prepareMove 10 (initial 1000 (- 1000) 1000 0 255))) = STATE_STARTING \<and>
   m_kissState (move 77 (snd (prepareMove 10 (initial 1000 (- 1000) 1000 0 255))))
     = STATE_RUN \<and>
   m_lastStepTime (move 77 (snd (prepareMove 10 (initial 1000 (- 1000) 1000 0 255)))) = 77 \<and>
   stepPulses (move 77 (snd (prepareMove 10 (initial 1000 (- 1000) 1000 0 255)))) = 0"
proof -
  let ?s = "snd (prepareMove 10 (initial 1000 (- 1000) 1000 0 255))"
  have st: "m_kissState ?s = STATE_STARTING"
    by (simp add: initial_def prepareMove_def constrain_def Let_def enable_def setDir_def
        setFullSpeedInterval_keeps)
  have "m_distAccel ?s = 0" "m_distRun ?s = 10" "stepPulses ?s = 0"
    by (simp_all add: initial_def prepareMove_def constrain_def Let_def enable_def
        setDir_def setFullSpeedInterval_def ONE_SECOND_def)
  with move_from_starting [OF st, of 77] st show ?thesis
    by simp
qed

subsection \<open>Deceleration on request\<close>

lemma clamped_decel_bounds:
  fixes moved total c :: "32 word"
  assumes "moved \<le> total"
  shows "moved \<le> moved + min c (total - moved) \<and> moved + min c (total - moved) \<le> total"
proof (cases "c \<le> total - moved")
  case True
  then have "min c (total - moved) = c"
    by simp
  moreover from True assms have "unat moved + unat c \<le> unat total"
    by unat_arith
  then have "moved \<le> moved + c \<and> moved + c \<le> total"
    by unat_arith
  ultimately show ?thesis
    by simp
next
  case False
  then have "min c (total - moved) = total - moved"
    by simp
  then show ?thesis
    using assms by simp
qed

lemma decelerate_moving:
  assumes "stateOrd STATE_STARTING < stateOrd (m_kissState s)" and "0 < m_accel s"
  shows "decelerate calcDecelDist s =
           s\<lparr>m_distAccel := 0, m_distRun := 0,
             m_distTotal := m_distMoved s + min (calcDecelDist s) (getDistRemaining s),
             m_kissState := STATE_DECEL\<rparr>"
  using assms by (simp add: decelerate_def Let_def min_def)

lemma decelerate_no_accel:
  assumes "stateOrd STATE_STARTING < stateOrd (m_kissState s)" and "m_accel s = 0"
  shows "decelerate calcDecelDist s = stop s"
  using assms by (simp add: decelerate_def)

lemma decelerate_idle:
  assumes "\<not> stateOrd STATE_STARTING < stateOrd (m_kissState s)"
  shows "decelerate calcDecelDist s = s"
  using assms by (simp add: decelerate_def)

text \<open>
  Claim C7. \<open>decelerate\<close> in a moving phase with \<open>m_accel > 0\<close>: the deceleration
  distance is what \<^verbatim>\<open>calcDecelDist\<close> gives, clamped to the distance remaining;
  \<open>m_distAccel\<close> and \<open>m_distRun\<close> become 0, \<open>m_distTotal\<close> becomes \<open>m_distMoved\<close>
  plus that distance, the state becomes Decelerating, and nothing else changes. While
  no more pulses are counted than planned, the new total lies between the pulses
  counted and the old total. In a moving phase with \<open>m_accel = 0\<close> the call is
  \<open>stop\<close>; in state Stopped it changes nothing.
\<close>

theorem decelerate_effect:
  "(stateOrd STATE_STARTING < stateOrd (m_kissState s) \<and> 0 < m_accel s \<longrightarrow>
      decelerate calcDecelDist s =
        s\<lparr>m_distAccel := 0, m_distRun := 0,
          m_distTotal := m_distMoved s + min (calcDecelDist s) (getDistRemaining s),
          m_kissState := STATE_DECEL\<rparr> \<and>
      (m_distMoved s \<le> m_distTotal s \<longrightarrow>
         m_distMoved s \<le> m_distTotal (decelerate calcDecelDist s) \<and>
         m_distTotal (decelerate calcDecelDist s) \<le> m_distTotal s)) \<and>
   (stateOrd STATE_STARTING < stateOrd (m_kissState s) \<and> m_accel s = 0 \<longrightarrow>
      decelerate calcDecelDist s = stop s) \<and>
   (m_kissState s = STATE_STOPPED \<longrightarrow> decelerate calcDecelDist s = s)"
proof (intro conjI impI)
  assume a: "stateOrd STATE_STARTING < stateOrd (m_kissState s) \<and> 0 < m_accel s"
  then show "decelerate calcDecelDist s =
        s\<lparr>m_distAccel := 0, m_distRun := 0,
          m_distTotal := m_distMoved s + min (calcDecelDist s) (getDistRemaining s),
          m_kissState := STATE_DECEL\<rparr>"
    by (simp add: decelerate_moving)
  assume le: "m_distMoved s \<le> m_distTotal s"
  from a have tot: "m_distTotal (decelerate calcDecelDist s) =
      m_distMoved s + min (calcDecelDist s) (m_distTotal s - m_distMoved s)"
    by (simp add: decelerate_moving getDistRemaining_def)
  from clamped_decel_bounds [OF le, of "calcDecelDist s"]
  show "m_distMoved s \<le> m_distTotal (decelerate calcDecelDist s)"
    and "m_distTotal (decelerate calcDecelDist s) \<le> m_distTotal s"
    by (simp_all only: tot)
next
  assume "stateOrd STATE_STARTING < stateOrd (m_kissState s) \<and> m_accel s = 0"
  then show "decelerate calcDecelDist s = stop s"
    by (simp add: decelerate_no_accel)
next
  assume "m_kissState s = STATE_STOPPED"
  then show "decelerate calcDecelDist s = s"
    by (simp add: decelerate_idle)
qed

theorem decelerate_effect_witness:
  "m_distTotal (decelerate (\<lambda>s. 4)
     ((initial 1000 (- 1000) 1000 2000 255)
        \<lparr>m_kissState := STATE_RUN, m_distMoved := 10, m_distTotal := 100,
          m_distAccel := 5, m_distRun := 95\<rparr>)) = 14 \<and>
   m_kissState (decelerate (\<lambda>s. 4)
     ((initial 1000 (- 1000) 1000 2000 255)
        \<lparr>m_kissState := STATE_RUN, m_distMoved := 10, m_distTotal := 100,
          m_distAccel := 5, m_distRun := 95\<rparr>)) = STATE_DECEL \<and>
   decelerate (\<lambda>s. 4)
     ((initial 1000 (- 1000) 1000 0 255)\<lparr>m_kissState := STATE_RUN\<rparr>)
     = stop ((initial 1000 (- 1000) 1000 0 255)\<lparr>m_kissState := STATE_RUN\<rparr>) \<and>
   decelerate (\<lambda>s. 4) (initial 1000 (- 1000) 1000 2000 255)
     = initial 1000 (- 1000) 1000 2000 255"
  using
    decelerate_effect [of "(initial 1000 (- 1000) 1000 2000 255)
        \<lparr>m_kissState := STATE_RUN, m_distMoved := 10, m_distTotal := 100,
          m_distAccel := 5, m_distRun := 95\<rparr>" "\<lambda>s. 4"]
    decelerate_effect [of "(initial 1000 (- 1000) 1000 0 255)\<lparr>m_kissState := STATE_RUN\<rparr>"
      "\<lambda>s. 4"]
    decelerate_effect [of "initial 1000 (- 1000) 1000 2000 255" "\<lambda>s. 4"]
  by (simp add: initial_def getDistRemaining_def)

subsection \<open>The interval at full speed\<close>

text \<open>
  Claim C5. With \<open>m_accel = 0\<close> the whole interval is \<open>ONE_SECOND div m_maxSpeed\<close>,
  and one more when \<open>ONE_SECOND mod m_maxSpeed\<close> is at least \<open>m_maxSpeed div 2\<close>, the
  half rounded down. For an odd speed whose remainder is exactly that, the remainder is
  strictly below half of the speed and the interval is rounded up all the same: at
  speed 1 (remainder 0) the interval is 1000001 and not 1000000, at speed 3
  (remainder 1) it is 333334 and not 333333, in both controllers.
\<close>

theorem full_speed_interval_odd_speed:
  "prepareMove 10 (initial 1000 (- 1000) 1 0 255)
     = (True, snd (prepareMove 10 (initial 1000 (- 1000) 1 0 255))) \<and>
   m_stepIntervalWhole (snd (prepareMove 10 (initial 1000 (- 1000) 1 0 255))) = 1000001 \<and>
   m_stepIntervalWhole (snd (prepareMoveNoAccel 10 (initial 1000 (- 1000) 1 0 255)))
     = 1000001 \<and>
   m_stepIntervalWhole (snd (prepareMove 10 (initial 1000 (- 1000) 3 0 255))) = 333334 \<and>
   m_stepIntervalWhole (snd (prepareMoveNoAccel 10 (initial 1000 (- 1000) 3 0 255)))
     = 333334"
  by (simp add: initial_def prepareMove_def prepareMoveNoAccel_def constrain_def Let_def
      enable_def setDir_def setFullSpeedInterval_def ONE_SECOND_def)

subsection \<open>The invariant of the profile, operation by operation\<close>

lemma half_less:
  fixes d :: "32 word"
  assumes "d \<noteq> 0"
  shows "d div 2 < d"
proof -
  from assms have "unat d \<noteq> 0"
    by (simp add: unat_eq_zero)
  then have "unat d div 2 < unat d"
    by simp
  then show ?thesis
    by (simp add: word_less_nat_alt unat_div)
qed

lemma below_half:
  fixes c d :: "32 word"
  assumes "\<not> d div 2 \<le> c"
  shows "c < d - c" and "d - c \<le> d"
proof -
  from assms have h: "unat c < unat d div 2"
    by (simp add: word_le_nat_alt unat_div)
  then have "unat c \<le> unat d"
    by simp
  then have cd: "c \<le> d"
    by (simp add: word_le_nat_alt)
  then have s: "unat (d - c) = unat d - unat c"
    by (simp add: unat_sub)
  from h show "c < d - c"
    by (simp add: word_less_nat_alt s)
  show "d - c \<le> d"
    by (simp add: word_le_nat_alt s)
qed

lemma count_up:
  fixes m b :: "32 word"
  assumes "m < b"
  shows "m + 1 \<le> b"
  using assms by (rule inc_le)

lemma progress_phaseInv:
  assumes "m_distAccel p \<le> m_distRun p" and "m_distRun p \<le> m_distTotal p"
    and "case m_kissState p of
           STATE_ACCEL \<Rightarrow> m_distMoved p \<le> m_distAccel p \<and>
             (m_distAccel p \<noteq> m_distRun p \<or> m_distRun p < m_distTotal p)
         | STATE_RUN \<Rightarrow> m_distMoved p \<le> m_distRun p
         | STATE_DECEL \<Rightarrow> m_distMoved p \<le> m_distTotal p
         | _ \<Rightarrow> False"
  shows "phaseInv (progress p)"
proof (cases "m_kissState p")
  case STATE_RUN
  with assms show ?thesis
    by (auto simp: progress_def phaseInv_def setInterval_keeps stop_fields)
next
  case STATE_ACCEL
  with assms show ?thesis
    by (auto simp: progress_def phaseInv_def setInterval_keeps stop_fields)
next
  case STATE_DECEL
  with assms show ?thesis
    by (auto simp: progress_def phaseInv_def setInterval_keeps stop_fields)
qed (use assms in simp_all)

lemma move_phaseInv:
  assumes "phaseInv s"
  shows "phaseInv (move curTime s)"
proof (cases "stateOrd STATE_STARTING < stateOrd (m_kissState s)")
  case moving: True
  show ?thesis
  proof (cases "m_stepIntervalWhole s \<le> curTime - m_lastStepTime s")
    case True
    let ?p = "s\<lparr>m_lastStepTime := m_lastStepTime s + m_stepIntervalWhole s,
                 stepPulses := stepPulses s + 1,
                 m_distMoved := m_distMoved s + 1\<rparr>"
    from assms have "m_distAccel ?p \<le> m_distRun ?p" "m_distRun ?p \<le> m_distTotal ?p"
      by (simp_all add: phaseInv_def)
    moreover from assms moving have
      "case m_kissState ?p of
           STATE_ACCEL \<Rightarrow> m_distMoved ?p \<le> m_distAccel ?p \<and>
             (m_distAccel ?p \<noteq> m_distRun ?p \<or> m_distRun ?p < m_distTotal ?p)
         | STATE_RUN \<Rightarrow> m_distMoved ?p \<le> m_distRun ?p
         | STATE_DECEL \<Rightarrow> m_distMoved ?p \<le> m_distTotal ?p
         | _ \<Rightarrow> False"
      by (cases "m_kissState s") (simp_all add: phaseInv_def count_up)
    ultimately have "phaseInv (progress ?p)"
      by (rule progress_phaseInv)
    with moving True show ?thesis
      by (simp add: move_due)
  next
    case False
    with moving assms show ?thesis
      by (simp add: move_not_due)
  qed
next
  case False
  then have "m_kissState s = STATE_STOPPED \<or> m_kissState s = STATE_STARTING"
    by (cases "m_kissState s") auto
  with assms show ?thesis
    by (auto simp: move_def Let_def phaseInv_def stop_fields word_gt_0)
qed

lemma stop_phaseInv: "phaseInv (stop s)"
  by (simp add: phaseInv_def stop_fields)

lemma phaseInv_fields:
  assumes "m_kissState t = m_kissState s" and "m_distMoved t = m_distMoved s"
    and "m_distTotal t = m_distTotal s" and "m_distAccel t = m_distAccel s"
    and "m_distRun t = m_distRun s"
  shows "phaseInv t = phaseInv s"
  using assms by (simp add: phaseInv_def split: kissState_t.splits)

lemma enable_phaseInv:
  assumes "phaseInv s"
  shows "phaseInv (enable s)"
proof -
  have "phaseInv (enable s) = phaseInv s"
    by (rule phaseInv_fields) (simp_all add: enable_def)
  with assms show ?thesis
    by simp
qed

lemma disable_phaseInv: "phaseInv (disable stop s)"
proof -
  have "phaseInv (disable stop s) = phaseInv (stop s)"
    by (rule phaseInv_fields) (simp_all add: disable_def Let_def)
  then show ?thesis
    by (simp add: stop_phaseInv)
qed

text \<open>
  Should \<^verbatim>\<open>stop\<close> not be virtual, \<^verbatim>\<open>disable\<close> calls the \<open>stop\<close> of the base
  class, which leaves \<open>m_distAccel\<close> and \<open>m_distRun\<close> as they were.
\<close>

lemma disable_base_stop:
  "m_kissState (disable stopNoAccel s) = STATE_STOPPED \<and>
   m_distTotal (disable stopNoAccel s) = 0 \<and>
   m_distMoved (disable stopNoAccel s) = 0 \<and>
   m_distAccel (disable stopNoAccel s) = m_distAccel s \<and>
   m_distRun (disable stopNoAccel s) = m_distRun s"
  by (simp add: disable_def stopNoAccel_def updatePos_def Let_def)

lemma decelerate_phaseInv:
  assumes "phaseInv s"
    and "stateOrd STATE_STARTING < stateOrd (m_kissState s) \<and> 0 < m_accel s
           \<longrightarrow> calcDecelDist s \<noteq> 0"
  shows "phaseInv (decelerate calcDecelDist s)"
proof (cases "stateOrd STATE_STARTING < stateOrd (m_kissState s)")
  case moving: True
  show ?thesis
  proof (cases "0 < m_accel s")
    case True
    from assms(1) moving have lt: "m_distMoved s < m_distTotal s"
      by (cases "m_kissState s") (auto simp: phaseInv_def)
    let ?k = "min (calcDecelDist s) (m_distTotal s - m_distMoved s)"
    from lt have "m_distTotal s - m_distMoved s \<noteq> 0"
      by auto
    with assms(2) moving True have "?k \<noteq> 0"
      by (auto simp: min_def)
    moreover from lt clamped_decel_bounds [of "m_distMoved s" "m_distTotal s" "calcDecelDist s"]
    have "m_distMoved s \<le> m_distMoved s + ?k"
      by simp
    ultimately have "m_distMoved s < m_distMoved s + ?k"
      by (metis add.right_neutral add_left_cancel order_le_imp_less_or_eq)
    with moving True show ?thesis
      by (simp add: decelerate_moving phaseInv_def getDistRemaining_def)
  next
    case False
    then have "m_accel s = 0"
      by (simp add: word_gt_0)
    with moving show ?thesis
      by (simp add: decelerate_no_accel stop_phaseInv)
  qed
next
  case False
  with assms(1) show ?thesis
    by (simp add: decelerate_idle)
qed

lemma phaseInv_profileInv: "phaseInv s \<Longrightarrow> profileInv s"
  by (cases "m_kissState s") (auto simp: phaseInv_def profileInv_def)

lemma initial_phaseInv: "phaseInv (initial f r m a p)"
  by (simp add: phaseInv_def initial_def)

lemma planRamp_dists:
  "m_distAccel (planRamp d s) =
     (if d div 2 \<le> calcMaxAccelDist s then d div 2 else calcMaxAccelDist s)"
  "m_distRun (planRamp d s) =
     (if d div 2 \<le> calcMaxAccelDist s then d div 2 else d - calcMaxAccelDist s)"
  by (simp_all add: planRamp_def Let_def)

lemma prepareMove_fst:
  "fst (prepareMove target s) \<longleftrightarrow>
     m_kissState s = STATE_STOPPED \<and>
     constrain target (m_reverseLimit s) (m_forwardLimit s) \<noteq> m_pos s \<and>
     m_maxSpeed s \<noteq> 0"
  by (simp add: prepareMove_def Let_def word_gt_0)

lemma prepareMove_rejected: "\<not> fst (prepareMove target s) \<Longrightarrow> snd (prepareMove target s) = s"
  by (auto simp: prepareMove_def Let_def split: if_splits)

lemma moveDistance_nonzero:
  "constrain target (m_reverseLimit s) (m_forwardLimit s) \<noteq> m_pos s \<Longrightarrow>
   moveDistance target s \<noteq> 0"
  by (auto simp: moveDistance_def Let_def)

lemma prepareMove_plan:
  assumes "fst (prepareMove target s)"
  shows "m_kissState (snd (prepareMove target s)) = STATE_STARTING"
    and "m_distMoved (snd (prepareMove target s)) = m_distMoved s"
    and "m_distTotal (snd (prepareMove target s)) = moveDistance target s"
    and "m_accel (snd (prepareMove target s)) = m_accel s"
    and "m_maxSpeed (snd (prepareMove target s)) = m_maxSpeed s"
    and "m_distAccel (snd (prepareMove target s)) =
          (if m_accel s = 0 then 0
           else if moveDistance target s div 2 \<le> calcMaxAccelDist s
                then moveDistance target s div 2 else calcMaxAccelDist s)"
    and "m_distRun (snd (prepareMove target s)) =
          (if m_accel s = 0 then moveDistance target s
           else if moveDistance target s div 2 \<le> calcMaxAccelDist s
                then moveDistance target s div 2
                else moveDistance target s - calcMaxAccelDist s)"
proof -
  from assms have c: "m_kissState s = STATE_STOPPED"
    "constrain target (m_reverseLimit s) (m_forwardLimit s) \<noteq> m_pos s" "0 < m_maxSpeed s"
    by (simp_all add: prepareMove_fst word_gt_0)
  show "m_kissState (snd (prepareMove target s)) = STATE_STARTING"
    and "m_distMoved (snd (prepareMove target s)) = m_distMoved s"
    and "m_distTotal (snd (prepareMove target s)) = moveDistance target s"
    and "m_accel (snd (prepareMove target s)) = m_accel s"
    and "m_maxSpeed (snd (prepareMove target s)) = m_maxSpeed s"
    using c
    by (simp_all add: prepareMove_def Let_def planRamp_keeps setFullSpeedInterval_keeps
        setDir_def enable_def moveDistance_def)
  show "m_distAccel (snd (prepareMove target s)) =
          (if m_accel s = 0 then 0
           else if moveDistance target s div 2 \<le> calcMaxAccelDist s
                then moveDistance target s div 2 else calcMaxAccelDist s)"
    and "m_distRun (snd (prepareMove target s)) =
          (if m_accel s = 0 then moveDistance target s
           else if moveDistance target s div 2 \<le> calcMaxAccelDist s
                then moveDistance target s div 2
                else moveDistance target s - calcMaxAccelDist s)"
    using c
    by (simp_all add: prepareMove_def Let_def planRamp_dists setFullSpeedInterval_keeps
        setDir_def enable_def moveDistance_def calcMaxAccelDist_def)
qed

lemma prepareMove_phaseInv:
  assumes "phaseInv s"
  shows "phaseInv (snd (prepareMove target s))"
proof (cases "fst (prepareMove target s)")
  case False
  with assms show ?thesis
    by (simp add: prepareMove_rejected)
next
  case True
  let ?d = "moveDistance target s"
  let ?c = "calcMaxAccelDist s"
  from True have st: "m_kissState s = STATE_STOPPED"
    and ne: "constrain target (m_reverseLimit s) (m_forwardLimit s) \<noteq> m_pos s"
    by (simp_all add: prepareMove_fst)
  from assms st have mv: "m_distMoved s = 0"
    by (simp add: phaseInv_def)
  from ne have d0: "?d \<noteq> 0"
    by (rule moveDistance_nonzero)
  have tri: "?d div 2 < ?d"
    using d0 by (rule half_less)
  have trap: "?c \<le> ?d - ?c" "?d - ?c \<le> ?d" "?c \<noteq> ?d - ?c" if "\<not> ?d div 2 \<le> ?c"
    using below_half [OF that] by (blast intro: less_imp_le dest: less_imp_neq)+
  show ?thesis
    using tri less_imp_le [OF tri] trap d0 mv
    by (simp add: phaseInv_def prepareMove_plan [OF True])
qed

lemmas eval_defs = initial_def prepareMove_def constrain_def Let_def enable_def setDir_def
  setFullSpeedInterval_def planRamp_def calcMaxAccelDist_def ONE_SECOND_def move_def
  progress_def stop_def updatePos_def setAccelInterval_def setDecelInterval_def
  setRunInterval_def accelStep_def decelStep_def f2u_def decelerate_def getDistRemaining_def
  disable_def

subsection \<open>Triangular and trapezoidal profiles\<close>

lemma unat_ucast_16_32: "unat (ucast (x :: 16 word) :: 32 word) = unat x"
proof -
  have "unat x < 2 ^ 16"
    using unsigned_less [of x] by simp
  then have "unat x < 2 ^ 32"
    by simp
  then show ?thesis
    by (simp add: unsigned_ucast_eq take_bit_nat_eq_self)
qed

lemma calcMaxAccelDist_unat:
  "unat (calcMaxAccelDist s) = (unat (m_maxSpeed s))\<^sup>2 div (2 * unat (m_accel s))"
proof -
  let ?m = "ucast (m_maxSpeed s) :: 32 word" and ?a = "ucast (m_accel s) :: 32 word"
  have m: "unat (m_maxSpeed s) < 2 ^ 16" and a: "unat (m_accel s) < 2 ^ 16"
    using unsigned_less [of "m_maxSpeed s"] unsigned_less [of "m_accel s"] by simp_all
  from m have "unat (m_maxSpeed s) * unat (m_maxSpeed s) < 2 ^ 16 * 2 ^ 16"
    by (intro mult_strict_mono) simp_all
  then have "unat ?m * unat ?m < 2 ^ LENGTH(32)"
    by (simp add: unat_ucast_16_32)
  then have sq: "unat (?m * ?m) = unat (m_maxSpeed s) * unat (m_maxSpeed s)"
    by (simp add: unat_mult_lem [THEN iffD1] unat_ucast_16_32)
  from a have "unat (2 :: 32 word) * unat ?a < 2 ^ LENGTH(32)"
    by (simp add: unat_ucast_16_32)
  then have tw: "unat (2 * ?a) = 2 * unat (m_accel s)"
    by (simp add: unat_mult_lem [THEN iffD1] unat_ucast_16_32)
  show ?thesis
    by (simp add: calcMaxAccelDist_def unat_div sq tw power2_eq_square)
qed

lemma sint_range:
  fixes a :: "32 word"
  shows "- 2147483648 \<le> sint a" and "sint a < 2147483648"
  using sint_ge [of a] sint_lt [of a] by simp_all

lemma signed_distance:
  fixes a b :: "32 word"
  assumes "sint a < sint b"
  shows "int (unat (b - a)) = sint b - sint a"
proof -
  have "b - a = word_of_int (sint b - sint a)"
    by simp
  then have "uint (b - a) = (sint b - sint a) mod 4294967296"
    by (simp only: uint_word_of_int) simp
  moreover have "0 \<le> sint b - sint a"
    using assms by linarith
  moreover have "sint b - sint a < 4294967296"
    using sint_range [of a] sint_range [of b] by linarith
  ultimately have "uint (b - a) = sint b - sint a"
    by (simp only: mod_pos_pos_trivial)
  then show ?thesis
    by (simp only: uint_nat)
qed

lemma sint_inject:
  fixes a b :: "32 word"
  assumes "sint a = sint b"
  shows "a = b"
proof -
  have "a = word_of_int (sint a)" and "b = word_of_int (sint b)"
    by simp_all
  with assms show ?thesis
    by simp
qed

lemma moveDistance_abs:
  "int (unat (moveDistance target s)) =
     \<bar>sint (constrain target (m_reverseLimit s) (m_forwardLimit s)) - sint (m_pos s)\<bar>"
proof -
  let ?t = "constrain target (m_reverseLimit s) (m_forwardLimit s)"
  consider "sint (m_pos s) < sint ?t" | "sint ?t < sint (m_pos s)" | "sint ?t = sint (m_pos s)"
    by linarith
  then show ?thesis
  proof cases
    case 1
    then show ?thesis
      using signed_distance [OF 1] by (simp add: moveDistance_def Let_def)
  next
    case 2
    then show ?thesis
      using signed_distance [OF 2] by (simp add: moveDistance_def Let_def)
  next
    case 3
    then have "?t = m_pos s"
      by (rule sint_inject)
    then show ?thesis
      by (simp add: moveDistance_def Let_def)
  qed
qed

lemma progress_noCruise:
  assumes "m_distAccel s = m_distRun s" and "m_kissState s \<noteq> STATE_RUN"
  shows "m_distAccel (progress s) = m_distRun (progress s) \<and>
         m_kissState (progress s) \<noteq> STATE_RUN"
  using assms by (simp add: progress_def setInterval_keeps stop_fields)

lemma move_noCruise:
  assumes "m_distAccel s = m_distRun s" and "m_kissState s \<noteq> STATE_RUN"
  shows "m_distAccel (move curTime s) = m_distRun (move curTime s) \<and>
         m_kissState (move curTime s) \<noteq> STATE_RUN"
proof (cases "stateOrd STATE_STARTING < stateOrd (m_kissState s)")
  case moving: True
  show ?thesis
  proof (cases "m_stepIntervalWhole s \<le> curTime - m_lastStepTime s")
    case True
    with moving assms show ?thesis
      by (simp add: move_due progress_noCruise)
  next
    case False
    with moving assms show ?thesis
      by (simp add: move_not_due)
  qed
next
  case False
  then have "m_kissState s = STATE_STOPPED \<or> m_kissState s = STATE_STARTING"
    by (cases "m_kissState s") auto
  with assms show ?thesis
    by (auto simp: move_def Let_def stop_fields)
qed

lemma decelerate_noCruise:
  assumes "m_distAccel s = m_distRun s" and "m_kissState s \<noteq> STATE_RUN"
  shows "m_distAccel (decelerate calcDecelDist s) = m_distRun (decelerate calcDecelDist s) \<and>
         m_kissState (decelerate calcDecelDist s) \<noteq> STATE_RUN"
  using assms by (simp add: decelerate_def Let_def stop_fields)

lemma exec_noCruise:
  assumes "\<not> isPrepareMove x"
    and "m_distAccel s = m_distRun s" and "m_kissState s \<noteq> STATE_RUN"
  shows "m_distAccel (exec calcDecelDist x s) = m_distRun (exec calcDecelDist x s) \<and>
         m_kissState (exec calcDecelDist x s) \<noteq> STATE_RUN"
proof (cases x)
  case (Move t)
  with assms show ?thesis by (simp add: move_noCruise)
next
  case Decelerate
  with assms show ?thesis by (simp add: decelerate_noCruise)
next
  case Stop
  then show ?thesis by (simp add: stop_fields)
next
  case Enable
  with assms show ?thesis by (simp add: enable_def)
next
  case Disable
  then show ?thesis by (simp add: disable_def Let_def stop_fields)
qed (use assms in simp)

lemma run_noCruise:
  assumes "\<not> list_ex isPrepareMove ops"
    and "m_distAccel s = m_distRun s" and "m_kissState s \<noteq> STATE_RUN"
  shows "m_distAccel (run calcDecelDist ops s) = m_distRun (run calcDecelDist ops s) \<and>
         m_kissState (run calcDecelDist ops s) \<noteq> STATE_RUN"
  using assms
proof (induction ops arbitrary: s)
  case Nil
  then show ?case by simp
next
  case (Cons x xs)
  from Cons.prems have "\<not> isPrepareMove x" and xs: "\<not> list_ex isPrepareMove xs"
    by simp_all
  from exec_noCruise [OF this(1) Cons.prems(2,3)] Cons.IH [OF xs] show ?case
    by simp
qed

text \<open>
  Claim C3. After a successful \<open>prepareMove\<close> with \<open>m_accel > 0\<close> the planned
  total is the distance between the position and the clamped target. If
  \<open>maxSpeed\<^sup>2 div (2 \<sqdot> accel)\<close> is at least half of it (in whole steps), then
  \<open>m_distAccel\<close> and \<open>m_distRun\<close> are both that half, and whatever operations other
  than a new \<open>prepareMove\<close> follow, the state is never Cruising. Otherwise
  \<open>m_distAccel\<close> is \<open>maxSpeed\<^sup>2 div (2 \<sqdot> accel)\<close> and \<open>m_distRun\<close> is the total less
  \<open>m_distAccel\<close>, without wrap-around.
\<close>

theorem triangular_profile_no_cruise:
  assumes "prepareMove target s = (True, s')" and "0 < m_accel s"
  shows "int (unat (m_distTotal s')) =
           \<bar>sint (constrain target (m_reverseLimit s) (m_forwardLimit s)) - sint (m_pos s)\<bar> \<and>
         (if unat (m_distTotal s') div 2 \<le> (unat (m_maxSpeed s))\<^sup>2 div (2 * unat (m_accel s))
          then m_distAccel s' = m_distTotal s' div 2 \<and>
               m_distRun s' = m_distTotal s' div 2 \<and>
               (\<forall>ops. \<not> list_ex isPrepareMove ops \<longrightarrow>
                  m_kissState (run calcDecelDist ops s') \<noteq> STATE_RUN)
          else unat (m_distAccel s') = (unat (m_maxSpeed s))\<^sup>2 div (2 * unat (m_accel s)) \<and>
               m_distRun s' = m_distTotal s' - m_distAccel s' \<and>
               unat (m_distRun s') = unat (m_distTotal s') - unat (m_distAccel s'))"
proof -
  from assms(1) have ok: "fst (prepareMove target s)" and s': "s' = snd (prepareMove target s)"
    by simp_all
  note plan = prepareMove_plan [OF ok, folded s']
  from assms(2) have a: "m_accel s \<noteq> 0"
    by (simp add: word_gt_0)
  let ?d = "moveDistance target s" and ?c = "calcMaxAccelDist s"
  have cmp: "?d div 2 \<le> ?c \<longleftrightarrow>
      unat ?d div 2 \<le> (unat (m_maxSpeed s))\<^sup>2 div (2 * unat (m_accel s))"
    by (simp add: word_le_nat_alt unat_div calcMaxAccelDist_unat)
  have dist: "int (unat (m_distTotal s')) =
           \<bar>sint (constrain target (m_reverseLimit s) (m_forwardLimit s)) - sint (m_pos s)\<bar>"
    unfolding plan(3) by (rule moveDistance_abs)
  show ?thesis
  proof (cases "?d div 2 \<le> ?c")
    case True
    then have eq: "m_distAccel s' = m_distRun s'" and st: "m_kissState s' \<noteq> STATE_RUN"
      using a by (simp_all add: plan)
    have "\<forall>ops. \<not> list_ex isPrepareMove ops \<longrightarrow>
            m_kissState (run calcDecelDist ops s') \<noteq> STATE_RUN"
      using run_noCruise [OF _ eq st] by blast
    with True a dist cmp show ?thesis
      by (simp add: plan)
  next
    case False
    then have "?c \<le> ?d - ?c" "?d - ?c \<le> ?d"
      using below_half [OF False] by (blast intro: less_imp_le)+
    from False have "unat ?c < unat ?d div 2"
      by (simp add: word_le_nat_alt unat_div)
    then have "?c \<le> ?d"
      by (simp add: word_le_nat_alt)
    then have "unat (?d - ?c) = unat ?d - unat ?c"
      by (simp add: unat_sub)
    with False a dist cmp show ?thesis
      by (simp add: plan calcMaxAccelDist_unat)
  qed
qed

theorem triangular_profile_no_cruise_witness:
  "prepareMove 10 (initial 1000 (- 1000) 1000 2000 255)
     = (True, snd (prepareMove 10 (initial 1000 (- 1000) 1000 2000 255))) \<and>
   m_distAccel (snd (prepareMove 10 (initial 1000 (- 1000) 1000 2000 255))) = 5 \<and>
   m_distRun (snd (prepareMove 10 (initial 1000 (- 1000) 1000 2000 255))) = 5 \<and>
   m_kissState (run (\<lambda>s. 1) [Move 0, Move 20000, Move 40000, Decelerate, Move 90000]
     (snd (prepareMove 10 (initial 1000 (- 1000) 1000 2000 255)))) \<noteq> STATE_RUN \<and>
   prepareMove 10 (initial 1000 (- 1000) 10 50 255)
     = (True, snd (prepareMove 10 (initial 1000 (- 1000) 10 50 255))) \<and>
   m_distAccel (snd (prepareMove 10 (initial 1000 (- 1000) 10 50 255))) = 1 \<and>
   m_distRun (snd (prepareMove 10 (initial 1000 (- 1000) 10 50 255))) = 9"
proof -
  let ?a = "initial 1000 (- 1000) 1000 2000 255" and ?b = "initial 1000 (- 1000) 10 50 255"
  have fa: "fst (prepareMove 10 ?a)" and fb: "fst (prepareMove 10 ?b)"
    by (simp_all add: prepareMove_fst initial_def constrain_def)
  then have pa: "prepareMove 10 ?a = (True, snd (prepareMove 10 ?a))"
    and pb: "prepareMove 10 ?b = (True, snd (prepareMove 10 ?b))"
    by (simp_all add: prod_eq_iff)
  have da: "m_distTotal (snd (prepareMove 10 ?a)) = 10"
    and db: "m_distTotal (snd (prepareMove 10 ?b)) = 10"
    unfolding prepareMove_plan(3) [OF fa] prepareMove_plan(3) [OF fb]
    by (simp_all add: moveDistance_def initial_def constrain_def)
  have acc: "0 < m_accel ?a" "0 < m_accel ?b" "m_maxSpeed ?a = 1000" "m_accel ?a = 2000"
    "m_maxSpeed ?b = 10" "m_accel ?b = 50"
    by (simp_all add: initial_def)
  have np: "\<not> list_ex isPrepareMove [Move 0, Move 20000, Move 40000, Decelerate, Move 90000]"
    by simp
  from triangular_profile_no_cruise [OF pa acc(1), of "\<lambda>s. 1"]
  have tri: "m_distAccel (snd (prepareMove 10 ?a)) = 5 \<and>
      m_distRun (snd (prepareMove 10 ?a)) = 5 \<and>
      (\<forall>ops. \<not> list_ex isPrepareMove ops \<longrightarrow>
         m_kissState (run (\<lambda>s. 1) ops (snd (prepareMove 10 ?a))) \<noteq> STATE_RUN)"
    by (simp add: da acc)
  with np have nr: "m_kissState
      (run (\<lambda>s. 1) [Move 0, Move 20000, Move 40000, Decelerate, Move 90000]
         (snd (prepareMove 10 ?a))) \<noteq> STATE_RUN"
    by blast
  from triangular_profile_no_cruise [OF pb acc(2), of "\<lambda>s. 1"]
  have "unat (m_distAccel (snd (prepareMove 10 ?b))) = 1 \<and>
      m_distRun (snd (prepareMove 10 ?b)) = 10 - m_distAccel (snd (prepareMove 10 ?b))"
    by (simp add: db acc)
  moreover have "x = 1" if "unat x = 1" for x :: "32 word"
    using that by (simp add: word_eq_iff_unsigned [where ?'a = nat])
  ultimately have "m_distAccel (snd (prepareMove 10 ?b)) = 1 \<and>
      m_distRun (snd (prepareMove 10 ?b)) = 9"
    by auto
  with tri nr pa pb show ?thesis
    by simp
qed

subsection \<open>The invariant along the operations\<close>

lemma progress_keeps_triangle:
  assumes "m_distAccel s = m_distRun s"
  shows "m_distAccel (progress s) = m_distRun (progress s)"
  using assms by (simp add: progress_def setInterval_keeps stop_fields)

lemma move_keeps_triangle:
  assumes "m_distAccel s = m_distRun s"
  shows "m_distAccel (move curTime s) = m_distRun (move curTime s)"
proof (cases "stateOrd STATE_STARTING < stateOrd (m_kissState s)")
  case moving: True
  show ?thesis
  proof (cases "m_stepIntervalWhole s \<le> curTime - m_lastStepTime s")
    case True
    with moving assms show ?thesis
      by (simp add: move_due progress_keeps_triangle)
  next
    case False
    with moving assms show ?thesis
      by (simp add: move_not_due)
  qed
next
  case False
  with assms show ?thesis
    by (simp add: move_def Let_def stop_fields)
qed

lemma exec_keeps_triangle:
  assumes "m_distAccel s = m_distRun s" and "\<not> isPrepareMove x"
  shows "m_distAccel (exec calcDecelDist x s) = m_distRun (exec calcDecelDist x s)"
proof (cases x)
  case (Move t)
  with assms show ?thesis by (simp add: move_keeps_triangle)
next
  case Decelerate
  with assms show ?thesis by (simp add: decelerate_def Let_def stop_fields)
next
  case Stop
  then show ?thesis by (simp add: stop_fields)
next
  case Enable
  with assms show ?thesis by (simp add: enable_def)
next
  case Disable
  then show ?thesis by (simp add: disable_def Let_def stop_fields)
qed (use assms in simp)

lemma exec_phaseInv:
  assumes "phaseInv s"
    and "if x = Decelerate \<and> stateOrd STATE_STARTING < stateOrd (m_kissState s) \<and> 0 < m_accel s
         then calcDecelDist s \<noteq> 0 else True"
  shows "phaseInv (exec calcDecelDist x s)"
proof (cases x)
  case (PrepareMove t)
  with assms show ?thesis by (simp add: prepareMove_phaseInv)
next
  case (Move t)
  with assms show ?thesis by (simp add: move_phaseInv)
next
  case Decelerate
  with assms show ?thesis by (simp add: decelerate_phaseInv split: if_splits)
next
  case Stop
  then show ?thesis by (simp add: stop_phaseInv)
next
  case Enable
  with assms show ?thesis by (simp add: enable_phaseInv)
next
  case Disable
  then show ?thesis by (simp add: disable_phaseInv)
qed

lemma run_phaseInv:
  assumes "phaseInv s" and "decelNonzero calcDecelDist ops s"
  shows "phaseInv (run calcDecelDist ops s)"
  using assms
proof (induction ops arbitrary: s)
  case Nil
  then show ?case by simp
next
  case (Cons x xs)
  from Cons.prems have "phaseInv (exec calcDecelDist x s)"
    by (intro exec_phaseInv) simp_all
  moreover from Cons.prems have "decelNonzero calcDecelDist xs (exec calcDecelDist x s)"
    by simp
  ultimately show ?case
    using Cons.IH by simp
qed

text \<open>
  Apart from a \<open>decelerate\<close> that is given the distance 0, the operations keep the
  invariant of the profile in every state reached from the initial object. (Here
  \<open>disable\<close> calls the \<open>stop\<close> of \<open>kissStepper\<close>.)
\<close>

lemma reachable_profileInv:
  assumes "decelNonzero calcDecelDist ops
             (initial forwardLimit reverseLimit maxSpeed accel pinEnable)"
  shows "profileInv
           (run calcDecelDist ops (initial forwardLimit reverseLimit maxSpeed accel pinEnable))"
  using initial_phaseInv assms by (intro phaseInv_profileInv run_phaseInv)

text \<open>
  Claim C9. Every state reached from the initial Stopped state is to satisfy the
  invariant of the profile, so \<open>m_distMoved \<le> m_distTotal\<close>. \<open>decelerate\<close> breaks
  it when the distance to stop is 0. In a move of 3 steps at speed 1000 and
  acceleration 2 the first pulse ends the acceleration, with 1 of 3 pulses counted and
  the interval 750000 microseconds (1.33 steps a second), from which the distance to
  stop, \<open>calcDecelDistSpec\<close>, is 0. \<open>decelerate\<close> then sets \<open>m_distTotal\<close> to
  the count, 1, and stays Decelerating. The next pulse counts 2, which is not equal to
  the total: \<open>move\<close> does not stop, and the count is above the total.
\<close>

theorem decelerate_zero_distance_runaway:
  "m_kissState (run calcDecelDistSpec [PrepareMove 3, Move 0, Move 500000]
      (initial 1000 (- 1000) 1000 2 255)) = STATE_DECEL \<and>
   m_distMoved (run calcDecelDistSpec [PrepareMove 3, Move 0, Move 500000]
      (initial 1000 (- 1000) 1000 2 255)) = 1 \<and>
   m_distTotal (run calcDecelDistSpec [PrepareMove 3, Move 0, Move 500000]
      (initial 1000 (- 1000) 1000 2 255)) = 3 \<and>
   calcDecelDistSpec (run calcDecelDistSpec [PrepareMove 3, Move 0, Move 500000]
      (initial 1000 (- 1000) 1000 2 255)) = 0 \<and>
   m_distTotal (run calcDecelDistSpec [PrepareMove 3, Move 0, Move 500000, Decelerate]
      (initial 1000 (- 1000) 1000 2 255)) = 1 \<and>
   m_kissState (run calcDecelDistSpec
      [PrepareMove 3, Move 0, Move 500000, Decelerate, Move 1300000]
      (initial 1000 (- 1000) 1000 2 255)) = STATE_DECEL \<and>
   m_distMoved (run calcDecelDistSpec
      [PrepareMove 3, Move 0, Move 500000, Decelerate, Move 1300000]
      (initial 1000 (- 1000) 1000 2 255)) = 2 \<and>
   m_distTotal (run calcDecelDistSpec
      [PrepareMove 3, Move 0, Move 500000, Decelerate, Move 1300000]
      (initial 1000 (- 1000) 1000 2 255)) = 1 \<and>
   \<not> profileInv (run calcDecelDistSpec
      [PrepareMove 3, Move 0, Move 500000, Decelerate, Move 1300000]
      (initial 1000 (- 1000) 1000 2 255))"
  by (simp add: profileInv_def eval_defs calcDecelDistSpec_def word_le_nat_alt)

subsection \<open>The whole interval and the real-valued interval\<close>

lemma f2u_floor:
  assumes "0 \<le> x" and "x < 4294967296"
  shows "int (unat (f2u x)) = \<lfloor>x\<rfloor>"
proof -
  from assms have "0 \<le> \<lfloor>x\<rfloor>" and "\<lfloor>x\<rfloor> < 4294967296"
    by (simp_all add: floor_less_iff)
  then have "\<lfloor>x\<rfloor> mod 4294967296 = \<lfloor>x\<rfloor>"
    by (simp only: mod_pos_pos_trivial)
  moreover have "uint (f2u x) = \<lfloor>x\<rfloor> mod 4294967296"
    using assms(1) by (simp add: f2u_def uint_word_of_int)
  ultimately show ?thesis
    by (simp only: uint_nat)
qed

lemma setInterval_values:
  "m_stepInterval (setAccelInterval s) = accelStep (m_stepInterval s) (m_constMult s)"
  "m_stepIntervalWhole (setAccelInterval s) = f2u (accelStep (m_stepInterval s) (m_constMult s))"
  "m_stepInterval (setDecelInterval s) = decelStep (m_stepInterval s) (m_constMult s)"
  "m_stepIntervalWhole (setDecelInterval s) = f2u (decelStep (m_stepInterval s) (m_constMult s))"
  "m_stepIntervalWhole (setRunInterval s) = m_maxSpeedStepInterval s"
  "m_stepInterval (setRunInterval s) = real (unat (m_maxSpeedStepInterval s))"
  by (simp_all add: setAccelInterval_def setDecelInterval_def setRunInterval_def Let_def)

lemma progress_cases:
  assumes "stateOrd STATE_STARTING < stateOrd (m_kissState p)"
  shows "(m_kissState (progress p) = STATE_ACCEL \<and> m_kissState p = STATE_ACCEL \<and>
            progress p = setAccelInterval p) \<or>
         (m_kissState (progress p) = STATE_DECEL \<and>
            progress p = setDecelInterval (p\<lparr>m_kissState := STATE_DECEL\<rparr>)) \<or>
         (m_kissState (progress p) = STATE_RUN \<and> m_kissState p = STATE_ACCEL \<and>
            progress p = setRunInterval (p\<lparr>m_kissState := STATE_RUN\<rparr>)) \<or>
         (m_kissState (progress p) = STATE_RUN \<and> m_kissState p = STATE_RUN \<and> progress p = p) \<or>
         (m_kissState (progress p) = STATE_STOPPED \<and> progress p = stop p)"
proof (cases "m_kissState p")
  case STATE_RUN
  then show ?thesis
    by (simp add: progress_def setInterval_keeps stop_fields)
next
  case STATE_ACCEL
  then show ?thesis
    by (simp add: progress_def setInterval_keeps stop_fields)
next
  case STATE_DECEL
  then have eq: "p\<lparr>m_kissState := STATE_DECEL\<rparr> = p"
    by simp
  show ?thesis
    unfolding eq using STATE_DECEL
    by (simp add: progress_def setInterval_keeps stop_fields)
qed (use assms in simp_all)

lemma move_recomputes:
  assumes "stateOrd STATE_STARTING < stateOrd (m_kissState s)"
    and "m_stepIntervalWhole s \<le> curTime - m_lastStepTime s"
  shows "(m_kissState (move curTime s) = STATE_ACCEL \<longrightarrow>
            m_kissState s = STATE_ACCEL \<and>
            m_stepInterval (move curTime s) = accelStep (m_stepInterval s) (m_constMult s) \<and>
            m_stepIntervalWhole (move curTime s) = f2u (m_stepInterval (move curTime s))) \<and>
         (m_kissState (move curTime s) = STATE_DECEL \<longrightarrow>
            m_stepInterval (move curTime s) = decelStep (m_stepInterval s) (m_constMult s) \<and>
            m_stepIntervalWhole (move curTime s) = f2u (m_stepInterval (move curTime s))) \<and>
         (m_kissState (move curTime s) = STATE_RUN \<longrightarrow>
            (if m_kissState s = STATE_RUN
             then m_stepInterval (move curTime s) = m_stepInterval s \<and>
                  m_stepIntervalWhole (move curTime s) = m_stepIntervalWhole s
             else m_kissState s = STATE_ACCEL \<and>
                  m_stepInterval (move curTime s) = real (unat (m_maxSpeedStepInterval s)) \<and>
                  m_stepIntervalWhole (move curTime s) = m_maxSpeedStepInterval s))"
proof -
  let ?p = "s\<lparr>m_lastStepTime := m_lastStepTime s + m_stepIntervalWhole s,
               stepPulses := stepPulses s + 1,
               m_distMoved := m_distMoved s + 1\<rparr>"
  from assms have mv: "move curTime s = progress ?p"
    by (rule move_due)
  from assms(1) have "stateOrd STATE_STARTING < stateOrd (m_kissState ?p)"
    by simp
  from progress_cases [OF this] show ?thesis
    unfolding mv
    by (elim disjE conjE) (simp_all add: setInterval_values setInterval_keeps)
qed

text \<open>
  Claim C4, as amended. When a pulse is due in a moving phase and \<open>move\<close> leaves the
  controller Accelerating or Decelerating, the real-valued interval is the value of
  \<open>accelStep\<close> or \<open>decelStep\<close> at the previous real-valued interval, unrounded, and
  the whole interval is that value converted to an unsigned integer: for a value in
  range its integer part (it is truncated, not rounded to nearest).
\<close>

theorem stepIntervalWhole_truncated:
  assumes "stateOrd STATE_STARTING < stateOrd (m_kissState s)"
    and "m_stepIntervalWhole s \<le> curTime - m_lastStepTime s"
    and "m_kissState (move curTime s) = STATE_ACCEL \<or>
         m_kissState (move curTime s) = STATE_DECEL"
  shows "m_stepInterval (move curTime s) =
           (if m_kissState (move curTime s) = STATE_ACCEL
            then accelStep (m_stepInterval s) (m_constMult s)
            else decelStep (m_stepInterval s) (m_constMult s)) \<and>
         m_stepIntervalWhole (move curTime s) = f2u (m_stepInterval (move curTime s)) \<and>
         (if 0 \<le> m_stepInterval (move curTime s) \<and>
             m_stepInterval (move curTime s) < 4294967296
          then int (unat (m_stepIntervalWhole (move curTime s)))
                 = \<lfloor>m_stepInterval (move curTime s)\<rfloor>
          else True)"
proof -
  from move_recomputes [OF assms(1,2)] assms(3)
  have v: "m_stepInterval (move curTime s) =
           (if m_kissState (move curTime s) = STATE_ACCEL
            then accelStep (m_stepInterval s) (m_constMult s)
            else decelStep (m_stepInterval s) (m_constMult s))"
    and w: "m_stepIntervalWhole (move curTime s) = f2u (m_stepInterval (move curTime s))"
    by auto
  have "int (unat (m_stepIntervalWhole (move curTime s))) = \<lfloor>m_stepInterval (move curTime s)\<rfloor>"
    if "0 \<le> m_stepInterval (move curTime s)" "m_stepInterval (move curTime s) < 4294967296"
    unfolding w using that by (rule f2u_floor)
  with v w show ?thesis
    by simp
qed

theorem stepIntervalWhole_truncated_witness:
  "m_kissState (move 968750 (moves [0, 500000, 750000]
      (snd (prepareMove 8 (initial 1000 (- 1000) 1000 2 255))))) = STATE_ACCEL \<and>
   m_stepInterval (move 968750 (moves [0, 500000, 750000]
      (snd (prepareMove 8 (initial 1000 (- 1000) 1000 2 255))))) = 197814.94140625 \<and>
   int (unat (m_stepIntervalWhole (move 968750 (moves [0, 500000, 750000]
      (snd (prepareMove 8 (initial 1000 (- 1000) 1000 2 255)))))))
     = \<lfloor>197814.94140625 :: real\<rfloor>"
proof -
  let ?s = "moves [0, 500000, 750000] (snd (prepareMove 8 (initial 1000 (- 1000) 1000 2 255)))"
  have st: "m_kissState ?s = STATE_ACCEL" "m_kissState (move 968750 ?s) = STATE_ACCEL"
    "m_stepIntervalWhole ?s \<le> 968750 - m_lastStepTime ?s"
    "m_stepInterval (move 968750 ?s) = 197814.94140625"
    by (simp_all add: eval_defs)
  have mv: "stateOrd STATE_STARTING < stateOrd (m_kissState ?s)"
    unfolding st(1) by simp
  have rng: "0 \<le> (197814.94140625 :: real) \<and> (197814.94140625 :: real) < 4294967296"
    by simp
  note t = stepIntervalWhole_truncated [OF mv st(3) disjI1 [OF st(2)]]
  from t [THEN conjunct2, THEN conjunct2]
  have "int (unat (m_stepIntervalWhole (move 968750 ?s))) = \<lfloor>197814.94140625 :: real\<rfloor>"
    unfolding st(4) by (simp only: rng if_True)
  with st(2,4) show ?thesis
    by (intro conjI)
qed

text \<open>
  The whole interval is not the real-valued one rounded to nearest: after the third
  pulse of a move of 8 steps at acceleration 2 the real-valued interval is
  197814.94140625 and the whole one 197814, not 197815; and the initial interval
  that \<open>prepareMove\<close> stores at acceleration 18 is 1000000/6 with the whole interval
  166666, not 166667.
\<close>

theorem stepIntervalWhole_not_rounded:
  "m_kissState (moves [0, 500000, 750000, 968750]
      (snd (prepareMove 8 (initial 1000 (- 1000) 1000 2 255)))) = STATE_ACCEL \<and>
   m_stepInterval (moves [0, 500000, 750000, 968750]
      (snd (prepareMove 8 (initial 1000 (- 1000) 1000 2 255)))) = 197814.94140625 \<and>
   m_stepIntervalWhole (moves [0, 500000, 750000, 968750]
      (snd (prepareMove 8 (initial 1000 (- 1000) 1000 2 255)))) = 197814 \<and>
   round (197814.94140625 :: real) = 197815 \<and>
   m_stepInterval (snd (prepareMove 8 (initial 1000 (- 1000) 1000 18 255))) = 1000000 / 6 \<and>
   m_stepIntervalWhole (snd (prepareMove 8 (initial 1000 (- 1000) 1000 18 255))) = 166666 \<and>
   round (1000000 / 6 :: real) = 166667"
  by (simp add: eval_defs real_sqrt_unique round_def)

subsection \<open>Cruising entered from Starting\<close>

text \<open>
  Claim C8. While the state is Cruising the real-valued interval is to be
  \<open>m_maxSpeedStepInterval\<close>. The Starting branch of \<open>move\<close> enters Cruising
  without setting the interval, which the branch from Accelerating to Cruising does
  set. At speed 1 and acceleration 50 the acceleration distance is 0, so a move of 2
  steps goes from Starting straight to Cruising: the real-valued and the whole
  interval stay the initial 100000 microseconds, also after a pulse, while
  \<open>m_maxSpeedStepInterval\<close> is 1000000. The motor runs at ten times the speed set.
\<close>

theorem cruise_from_starting_keeps_initial_interval:
  "prepareMove 2 (initial 1000 (- 1000) 1 50 255)
     = (True, snd (prepareMove 2 (initial 1000 (- 1000) 1 50 255))) \<and>
   m_distAccel (snd (prepareMove 2 (initial 1000 (- 1000) 1 50 255))) = 0 \<and>
   m_kissState (moves [0] (snd (prepareMove 2 (initial 1000 (- 1000) 1 50 255)))) = STATE_RUN \<and>
   m_kissState (moves [0, 100000] (snd (prepareMove 2 (initial 1000 (- 1000) 1 50 255))))
     = STATE_RUN \<and>
   stepPulses (moves [0, 100000] (snd (prepareMove 2 (initial 1000 (- 1000) 1 50 255)))) = 1 \<and>
   m_stepInterval (moves [0, 100000] (snd (prepareMove 2 (initial 1000 (- 1000) 1 50 255))))
     = 100000 \<and>
   m_stepIntervalWhole
     (moves [0, 100000] (snd (prepareMove 2 (initial 1000 (- 1000) 1 50 255)))) = 100000 \<and>
   m_maxSpeedStepInterval
     (moves [0, 100000] (snd (prepareMove 2 (initial 1000 (- 1000) 1 50 255)))) = 1000000"
  by (simp add: eval_defs real_sqrt_unique)

subsection \<open>A move completes, at the clamped target\<close>

text \<open>
  With every call made when the next pulse is due, a move in progress stops after as
  many calls as pulses remain, and emits that many pulses.
\<close>

lemma prepareMove_starts_phaseInv:
  assumes "fst (prepareMove target s)" and "m_distMoved s = 0"
  shows "phaseInv (snd (prepareMove target s))"
proof -
  let ?d = "moveDistance target s"
  let ?c = "calcMaxAccelDist s"
  from assms(1) have ne: "constrain target (m_reverseLimit s) (m_forwardLimit s) \<noteq> m_pos s"
    by (simp add: prepareMove_fst)
  then have d0: "?d \<noteq> 0"
    by (rule moveDistance_nonzero)
  have tri: "?d div 2 < ?d"
    using d0 by (rule half_less)
  have trap: "?c \<le> ?d - ?c" "?d - ?c \<le> ?d" "?c \<noteq> ?d - ?c" if "\<not> ?d div 2 \<le> ?c"
    using below_half [OF that] by (blast intro: less_imp_le dest: less_imp_neq)+
  show ?thesis
    using tri less_imp_le [OF tri] trap d0 assms(2)
    by (simp add: phaseInv_def prepareMove_plan [OF assms(1)])
qed

lemma progress_counts:
  assumes "stateOrd STATE_STARTING < stateOrd (m_kissState p)"
  shows "stepPulses (progress p) = stepPulses p"
    and "m_kissState (progress p) \<noteq> STATE_STOPPED \<Longrightarrow>
           m_distTotal (progress p) = m_distTotal p \<and> m_distMoved (progress p) = m_distMoved p \<and>
           stateOrd STATE_STARTING < stateOrd (m_kissState (progress p))"
  using progress_cases [OF assms]
  by (auto simp: setInterval_keeps stop_fields setAccelInterval_def setDecelInterval_def
      setRunInterval_def Let_def)

lemma count_next:
  fixes m b :: "32 word"
  assumes "m < b"
  shows "unat (m + 1) = Suc (unat m)"
proof -
  from assms have "1 + m \<noteq> 0"
    by unat_arith
  then have "unat (1 + m) = Suc (unat m)"
    by (rule unatSuc)
  then show ?thesis
    by (simp add: add.commute)
qed

lemma move_dueTime:
  assumes "stateOrd STATE_STARTING < stateOrd (m_kissState s)"
  shows "move (dueTime s) s =
           progress (s\<lparr>m_lastStepTime := m_lastStepTime s + m_stepIntervalWhole s,
                       stepPulses := stepPulses s + 1,
                       m_distMoved := m_distMoved s + 1\<rparr>)"
  using assms by (intro move_due) (simp_all add: dueTime_def)

lemma pulses_to_stop:
  assumes "phaseInv s" and "stateOrd STATE_STARTING < stateOrd (m_kissState s)"
    and "unat (m_distTotal s) - unat (m_distMoved s) = n"
  shows "\<exists>ts. length ts = n \<and> m_kissState (moves ts s) = STATE_STOPPED \<and>
              stepPulses (moves ts s) = stepPulses s + n"
  using assms
proof (induction n arbitrary: s)
  case 0
  from "0.prems"(1,2) have "m_distMoved s < m_distTotal s"
    by (cases "m_kissState s") (auto simp: phaseInv_def)
  then have "unat (m_distMoved s) < unat (m_distTotal s)"
    by (simp add: word_less_nat_alt)
  with "0.prems"(3) show ?case
    by simp
next
  case (Suc n)
  let ?p = "s\<lparr>m_lastStepTime := m_lastStepTime s + m_stepIntervalWhole s,
               stepPulses := stepPulses s + 1,
               m_distMoved := m_distMoved s + 1\<rparr>"
  let ?s' = "move (dueTime s) s"
  have mv: "?s' = progress ?p"
    using Suc.prems(2) by (rule move_dueTime)
  from Suc.prems(2) have pm: "stateOrd STATE_STARTING < stateOrd (m_kissState ?p)"
    by simp
  from Suc.prems(1) have inv': "phaseInv ?s'"
    by (rule move_phaseInv)
  from Suc.prems(1,2) have lt: "m_distMoved s < m_distTotal s"
    by (cases "m_kissState s") (auto simp: phaseInv_def)
  then have cnt: "unat (m_distMoved s + 1) = Suc (unat (m_distMoved s))"
    by (rule count_next)
  have pul: "stepPulses ?s' = stepPulses s + 1"
    unfolding mv using progress_counts(1) [OF pm] by simp
  show ?case
  proof (cases "m_kissState ?s' = STATE_STOPPED")
    case False
    with progress_counts(2) [OF pm] mv
    have keep: "m_distTotal ?s' = m_distTotal s" "m_distMoved ?s' = m_distMoved s + 1"
      "stateOrd STATE_STARTING < stateOrd (m_kissState ?s')"
      by simp_all
    with Suc.prems(3) cnt have "unat (m_distTotal ?s') - unat (m_distMoved ?s') = n"
      by simp
    from Suc.IH [OF inv' keep(3) this] obtain ts where
      "length ts = n" "m_kissState (moves ts ?s') = STATE_STOPPED"
      "stepPulses (moves ts ?s') = stepPulses ?s' + n"
      by blast
    with pul have "length (dueTime s # ts) = Suc n \<and>
        m_kissState (moves (dueTime s # ts) s) = STATE_STOPPED \<and>
        stepPulses (moves (dueTime s # ts) s) = stepPulses s + Suc n"
      by simp
    then show ?thesis
      by blast
  next
    case True
    have "n = 0"
    proof (rule ccontr)
      assume "n \<noteq> 0"
      with Suc.prems(3) cnt have far: "unat (m_distMoved s + 1) < unat (m_distTotal s)"
        by simp
      then have ne: "m_distMoved ?p \<noteq> m_distTotal ?p"
        by auto
      from far have "m_distMoved ?p < m_distTotal ?p"
        by (simp add: word_less_nat_alt)
      moreover from Suc.prems(1) have "m_distRun ?p \<le> m_distTotal ?p"
        by (simp add: phaseInv_def)
      ultimately have "m_kissState (progress ?p) \<noteq> STATE_STOPPED"
        using pm by (cases "m_kissState s")
          (auto simp: progress_def setInterval_keeps)
      with True mv show False
        by simp
    qed
    with True pul have "length [dueTime s] = Suc n \<and>
        m_kissState (moves [dueTime s] s) = STATE_STOPPED \<and>
        stepPulses (moves [dueTime s] s) = stepPulses s + Suc n"
      by simp
    then show ?thesis
      by blast
  qed
qed

lemma prepareMove_keeps_pulses: "stepPulses (snd (prepareMove target s)) = stepPulses s"
  by (simp add: prepareMove_def Let_def planRamp_def setFullSpeedInterval_def enable_def
      setDir_def)

lemma starting_call:
  assumes "phaseInv s" and "m_kissState s = STATE_STARTING"
  shows "stateOrd STATE_STARTING < stateOrd (m_kissState (move curTime s))"
    and "m_distTotal (move curTime s) = m_distTotal s"
    and "m_distMoved (move curTime s) = 0"
    and "stepPulses (move curTime s) = stepPulses s"
proof -
  from assms have "m_distMoved s = 0"
    and "m_distAccel s \<noteq> 0 \<or> m_distRun s \<noteq> 0 \<or> m_distTotal s \<noteq> 0"
    by (auto simp: phaseInv_def)
  with assms(2) show "stateOrd STATE_STARTING < stateOrd (m_kissState (move curTime s))"
    and "m_distTotal (move curTime s) = m_distTotal s"
    and "m_distMoved (move curTime s) = 0"
    and "stepPulses (move curTime s) = stepPulses s"
    by (auto simp: move_def Let_def)
qed

lemma move_completes:
  assumes "m_distMoved s = 0" and "prepareMove target s = (True, s1)"
  shows "\<exists>ts. length ts = Suc (unat (moveDistance target s)) \<and>
              m_kissState (moves ts s1) = STATE_STOPPED \<and>
              stepPulses (moves ts s1) = stepPulses s + unat (moveDistance target s)"
proof -
  from assms(2) have ok: "fst (prepareMove target s)" and s1: "s1 = snd (prepareMove target s)"
    by simp_all
  from ok assms(1) have inv: "phaseInv s1"
    unfolding s1 by (rule prepareMove_starts_phaseInv)
  have st: "m_kissState s1 = STATE_STARTING" and tot: "m_distTotal s1 = moveDistance target s"
    and pul: "stepPulses s1 = stepPulses s"
    unfolding s1 by (simp_all add: prepareMove_plan [OF ok] prepareMove_keeps_pulses)
  let ?s2 = "move 0 s1"
  note sc = starting_call [OF inv st, of 0]
  from inv have "phaseInv ?s2"
    by (rule move_phaseInv)
  moreover have "unat (m_distTotal ?s2) - unat (m_distMoved ?s2) = unat (moveDistance target s)"
    by (simp add: sc tot)
  ultimately obtain ts where "length ts = unat (moveDistance target s)"
    "m_kissState (moves ts ?s2) = STATE_STOPPED"
    "stepPulses (moves ts ?s2) = stepPulses ?s2 + unat (moveDistance target s)"
    using pulses_to_stop [OF _ sc(1)] by blast
  then have "length (0 # ts) = Suc (unat (moveDistance target s)) \<and>
      m_kissState (moves (0 # ts) s1) = STATE_STOPPED \<and>
      stepPulses (moves (0 # ts) s1) = stepPulses s + unat (moveDistance target s)"
    by (simp add: sc pul)
  then show ?thesis
    by blast
qed

text \<open>
  Claim C1. From a controller with no pulse counted (as \<open>stop\<close> leaves it), for
  every configuration and every target: if \<open>prepareMove target\<close> succeeds (so
  \<open>m_maxSpeed > 0\<close>; the acceleration may be zero or not), then calling \<open>move\<close>
  often enough brings the controller to Stopped, and whenever a sequence of calls of
  \<open>move\<close>, at any times, has brought it to Stopped, the position is the target
  clamped to the interval from \<open>m_reverseLimit\<close> to \<open>m_forwardLimit\<close>.
\<close>

theorem move_reaches_clamped_target:
  assumes "m_distMoved s = 0" and "prepareMove target s = (True, s1)"
  shows "(\<exists>ts. m_kissState (moves ts s1) = STATE_STOPPED) \<and>
         (\<forall>ts. m_kissState (moves ts s1) = STATE_STOPPED \<longrightarrow>
               m_pos (moves ts s1) = constrain target (m_reverseLimit s) (m_forwardLimit s))"
proof (intro conjI allI impI)
  from move_completes [OF assms] show "\<exists>ts. m_kissState (moves ts s1) = STATE_STOPPED"
    by blast
next
  fix ts
  assume "m_kissState (moves ts s1) = STATE_STOPPED"
  with moves_arrives [OF prepareMove_arrives [OF assms], of ts]
  show "m_pos (moves ts s1) = constrain target (m_reverseLimit s) (m_forwardLimit s)"
    by (simp add: arrives_def)
qed

text \<open>
  The specification's example: a target beyond the forward limit 3 ends exactly at 3,
  after the starting call and three pulses 1000 microseconds apart.
\<close>

theorem move_reaches_clamped_target_witness:
  "prepareMove 5000 (initial 3 (- 1000) 1000 0 255)
     = (True, snd (prepareMove 5000 (initial 3 (- 1000) 1000 0 255))) \<and>
   m_kissState (moves [0, 1000, 2000, 3000]
     (snd (prepareMove 5000 (initial 3 (- 1000) 1000 0 255)))) = STATE_STOPPED \<and>
   m_pos (moves [0, 1000, 2000, 3000]
     (snd (prepareMove 5000 (initial 3 (- 1000) 1000 0 255)))) = 3"
proof -
  let ?s = "initial 3 (- 1000) 1000 0 255"
  have p: "prepareMove 5000 ?s = (True, snd (prepareMove 5000 ?s))"
    by (simp add: initial_def prepareMove_def constrain_def Let_def)
  have st: "m_kissState (moves [0, 1000, 2000, 3000] (snd (prepareMove 5000 ?s)))
              = STATE_STOPPED"
    by (simp add: initial_def prepareMove_def constrain_def Let_def enable_def setDir_def
        setFullSpeedInterval_def ONE_SECOND_def move_def progress_def stop_def updatePos_def)
  have "m_distMoved ?s = 0"
    by (simp add: initial_def)
  from move_reaches_clamped_target [OF this p, THEN conjunct2, THEN spec,
      of "[0, 1000, 2000, 3000]"] p st
  show ?thesis
    by (simp add: initial_def constrain_def)
qed

end
